theory Spec2Isabelle
  imports Main "HOL-Library.Word"
begin

unbundle bit_operations_syntax

section \<open>Data: bytes, text and exceptions\<close>

text \<open>
  Python's \<^verbatim>\<open>bytes\<close> is a sequence of 8-bit values and \<^verbatim>\<open>str\<close> a sequence of Unicode
  code points (numbers up to \<^verbatim>\<open>0x10FFFF\<close>). \<^verbatim>\<open>len\<close> of a \<^verbatim>\<open>str\<close> counts code points,
  so a \<^verbatim>\<open>str\<close> is modelled as the list of its code points.
\<close>

type_synonym byte = "8 word"
type_synonym bytes = "byte list"
type_synonym str = "nat list"

text \<open>
  The exceptions the code of \<^verbatim>\<open>wsgi.py\<close> can meet: \<^verbatim>\<open>UnicodeDecodeError\<close> and
  \<^verbatim>\<open>UnicodeEncodeError\<close> of the UTF-8 codec, \<^verbatim>\<open>binascii.Error\<close> of the base64 decoder, and
  \<^verbatim>\<open>TypeError\<close> of Flask's JSON encoder.
\<close>

datatype exn = UnicodeDecodeError | UnicodeEncodeError | Binascii_Error | TypeError

text \<open>An ASCII literal of the source, as a \<^verbatim>\<open>str\<close>.\<close>

definition literal :: "string \<Rightarrow> str" where
  "literal s = map of_char s"

section \<open>The UTF-8 codec of the standard library\<close>

text \<open>
  \<^verbatim>\<open>str.encode('utf-8')\<close>, one code point at a time. The strict error handler raises
  \<^verbatim>\<open>UnicodeEncodeError\<close> on a surrogate (\<^verbatim>\<open>U+D800\<close> to \<^verbatim>\<open>U+DFFF\<close>). A number above
  \<^verbatim>\<open>0x10FFFF\<close> is no code point; no \<^verbatim>\<open>str\<close> holds one, and the model gives it the same error.
\<close>

definition utf8_encode_char :: "nat \<Rightarrow> exn + bytes" where
  "utf8_encode_char c =
     (if c < 0x80 then Inr [of_nat c]
      else if c < 0x800 then Inr [of_nat (0xC0 + c div 64), of_nat (0x80 + c mod 64)]
      else if 0xD800 \<le> c \<and> c \<le> 0xDFFF then Inl UnicodeEncodeError
      else if c < 0x10000 then
        Inr [of_nat (0xE0 + c div 4096), of_nat (0x80 + c div 64 mod 64),
             of_nat (0x80 + c mod 64)]
      else if c < 0x110000 then
        Inr [of_nat (0xF0 + c div 262144), of_nat (0x80 + c div 4096 mod 64),
             of_nat (0x80 + c div 64 mod 64), of_nat (0x80 + c mod 64)]
      else Inl UnicodeEncodeError)"

fun utf8_encode :: "str \<Rightarrow> exn + bytes" where
  "utf8_encode [] = Inr []"
| "utf8_encode (c # cs) =
     (case utf8_encode_char c of
        Inl e \<Rightarrow> Inl e
      | Inr bs \<Rightarrow> (case utf8_encode cs of Inl e \<Rightarrow> Inl e | Inr r \<Rightarrow> Inr (bs @ r)))"

text \<open>
  \<^verbatim>\<open>bytes.decode('utf-8')\<close> with the strict error handler. \<open>utf8_first b0 bs\<close> reads the
  code point that starts with the byte \<open>b0\<close> and returns it with the number of
  continuation bytes it took from \<open>bs\<close>. It rejects what CPython's decoder rejects: a
  continuation byte or \<^verbatim>\<open>0xC0\<close>, \<^verbatim>\<open>0xC1\<close>, \<^verbatim>\<open>0xF5\<close> and above as first byte, a missing or
  wrong continuation byte, an overlong form (\<^verbatim>\<open>E0\<close> then below \<^verbatim>\<open>A0\<close>, \<^verbatim>\<open>F0\<close> then below
  \<^verbatim>\<open>90\<close>), a surrogate (\<^verbatim>\<open>ED\<close> then \<^verbatim>\<open>A0\<close> or above) and a value above \<^verbatim>\<open>0x10FFFF\<close>
  (\<^verbatim>\<open>F4\<close> then \<^verbatim>\<open>90\<close> or above).
\<close>

definition continuation :: "byte \<Rightarrow> bool" where
  "continuation b \<longleftrightarrow> 0x80 \<le> b \<and> b \<le> 0xBF"

definition utf8_first :: "byte \<Rightarrow> bytes \<Rightarrow> (nat \<times> nat) option" where
  "utf8_first b0 bs =
     (if b0 < 0x80 then Some (unat b0, 0)
      else if b0 < 0xC2 then None
      else if b0 < 0xE0 then
        (case bs of
           b1 # rest \<Rightarrow>
             if continuation b1
             then Some ((unat b0 - 0xC0) * 64 + (unat b1 - 0x80), 1)
             else None
         | _ \<Rightarrow> None)
      else if b0 < 0xF0 then
        (case bs of
           b1 # b2 # rest \<Rightarrow>
             if continuation b1 \<and> continuation b2
                \<and> \<not> (b0 = 0xE0 \<and> b1 < 0xA0) \<and> \<not> (b0 = 0xED \<and> b1 \<ge> 0xA0)
             then Some (((unat b0 - 0xE0) * 64 + (unat b1 - 0x80)) * 64 + (unat b2 - 0x80), 2)
             else None
         | _ \<Rightarrow> None)
      else if b0 < 0xF5 then
        (case bs of
           b1 # b2 # b3 # rest \<Rightarrow>
             if continuation b1 \<and> continuation b2 \<and> continuation b3
                \<and> \<not> (b0 = 0xF0 \<and> b1 < 0x90) \<and> \<not> (b0 = 0xF4 \<and> b1 \<ge> 0x90)
             then Some ((((unat b0 - 0xF0) * 64 + (unat b1 - 0x80)) * 64
                              + (unat b2 - 0x80)) * 64 + (unat b3 - 0x80), 3)
             else None
         | _ \<Rightarrow> None)
      else None)"

definition push_char :: "nat \<Rightarrow> exn + str \<Rightarrow> exn + str" where
  "push_char c r = (case r of Inl e \<Rightarrow> Inl e | Inr cs \<Rightarrow> Inr (c # cs))"

function utf8_decode :: "bytes \<Rightarrow> exn + str" where
  "utf8_decode [] = Inr []"
| "utf8_decode (b0 # bs) =
     (case utf8_first b0 bs of
        None \<Rightarrow> Inl UnicodeDecodeError
      | Some (c, k) \<Rightarrow> push_char c (utf8_decode (drop k bs)))"
  by pat_completeness auto
termination
  by (relation "measure length") auto

section \<open>The base64 codec of the standard library\<close>

text \<open>
  \<^verbatim>\<open>binascii.b2a_base64(s, newline=False)\<close>: three bytes become four characters of the
  table, each indexed by six bits; one or two bytes left at the end become two or three
  characters and \<^verbatim>\<open>=\<close> padding up to four.
\<close>

definition table_b2a_base64 :: "byte list" where
  "table_b2a_base64 =
     map of_char ''ABCDEFGHIJKLMNOPQRSTUVWXYZabcdefghijklmnopqrstuvwxyz0123456789+/''"

definition BASE64_PAD :: byte where
  "BASE64_PAD = of_char CHR ''=''"

definition b2a_char :: "byte \<Rightarrow> byte" where
  "b2a_char s = table_b2a_base64 ! unat s"

fun b2a_base64 :: "bytes \<Rightarrow> bytes" where
  "b2a_base64 (a # b # c # rest) =
     b2a_char (drop_bit 2 a)
     # b2a_char (push_bit 4 (a AND 3) OR drop_bit 4 b)
     # b2a_char (push_bit 2 (b AND 0xf) OR drop_bit 6 c)
     # b2a_char (c AND 0x3f)
     # b2a_base64 rest"
| "b2a_base64 [a, b] =
     [b2a_char (drop_bit 2 a),
      b2a_char (push_bit 4 (a AND 3) OR drop_bit 4 b),
      b2a_char (push_bit 2 (b AND 0xf)),
      BASE64_PAD]"
| "b2a_base64 [a] =
     [b2a_char (drop_bit 2 a),
      b2a_char (push_bit 4 (a AND 3)),
      BASE64_PAD,
      BASE64_PAD]"
| "b2a_base64 [] = []"

text \<open>
  \<^verbatim>\<open>binascii.a2b_base64(s)\<close> as \<^verbatim>\<open>base64.b64decode\<close> calls it (\<^verbatim>\<open>validate=False\<close>, so not in
  strict mode), after CPython 3.11. \<open>table_a2b_base64\<close> gives the six bits of a character of the standard
  alphabet and nothing for any other byte. The loop keeps CPython's variables: \<open>quad_pos\<close>
  (position in the current group of four), \<open>leftchar\<close> (bits not yet written), \<open>pads\<close>
  (padding characters seen in a row) and the output \<open>bin_data\<close>. A byte outside the
  alphabet is skipped; padding that completes a group ends the decoding; input that ends
  inside a group raises \<^verbatim>\<open>binascii.Error\<close>.
\<close>

definition table_a2b_base64 :: "byte \<Rightarrow> byte option" where
  "table_a2b_base64 c =
     (if 0x41 \<le> c \<and> c \<le> 0x5A then Some (c - 0x41)
      else if 0x61 \<le> c \<and> c \<le> 0x7A then Some (c - 0x61 + 26)
      else if 0x30 \<le> c \<and> c \<le> 0x39 then Some (c - 0x30 + 52)
      else if c = 0x2B then Some 62
      else if c = 0x2F then Some 63
      else None)"

fun a2b_loop :: "bytes \<Rightarrow> nat \<Rightarrow> byte \<Rightarrow> nat \<Rightarrow> bytes \<Rightarrow> exn + bytes" where
  "a2b_loop [] quad_pos leftchar pads bin_data =
     (if quad_pos \<noteq> 0 then Inl Binascii_Error else Inr bin_data)"
| "a2b_loop (this_ch # rest) quad_pos leftchar pads bin_data =
     (if this_ch = BASE64_PAD then
        (if quad_pos \<ge> 2 \<and> quad_pos + (pads + 1) \<ge> 4 then Inr bin_data
         else a2b_loop rest quad_pos leftchar
                (if quad_pos \<ge> 2 then pads + 1 else pads) bin_data)
      else
        (case table_a2b_base64 this_ch of
           None \<Rightarrow> a2b_loop rest quad_pos leftchar pads bin_data
         | Some v \<Rightarrow>
             (if quad_pos = 0 then a2b_loop rest 1 v 0 bin_data
              else if quad_pos = 1 then
                a2b_loop rest 2 (v AND 0x0f) 0 (bin_data @ [push_bit 2 leftchar OR drop_bit 4 v])
              else if quad_pos = 2 then
                a2b_loop rest 3 (v AND 0x03) 0 (bin_data @ [push_bit 4 leftchar OR drop_bit 2 v])
              else
                a2b_loop rest 0 0 0 (bin_data @ [push_bit 6 leftchar OR v]))))"

definition a2b_base64 :: "bytes \<Rightarrow> exn + bytes" where
  "a2b_base64 s = a2b_loop s 0 0 0 []"

text \<open>
  \<^verbatim>\<open>base64.urlsafe_b64encode\<close> encodes with the standard alphabet and then replaces
  \<^verbatim>\<open>+\<close> by \<^verbatim>\<open>-\<close> and \<^verbatim>\<open>/\<close> by \<^verbatim>\<open>_\<close>; \<^verbatim>\<open>base64.urlsafe_b64decode\<close> replaces them back and
  decodes.
\<close>

definition urlsafe_encode_translation :: "byte \<Rightarrow> byte" where
  "urlsafe_encode_translation c = (if c = 0x2B then 0x2D else if c = 0x2F then 0x5F else c)"

definition urlsafe_decode_translation :: "byte \<Rightarrow> byte" where
  "urlsafe_decode_translation c = (if c = 0x2D then 0x2B else if c = 0x5F then 0x2F else c)"

definition urlsafe_b64encode :: "bytes \<Rightarrow> bytes" where
  "urlsafe_b64encode s = map urlsafe_encode_translation (b2a_base64 s)"

definition urlsafe_b64decode :: "bytes \<Rightarrow> exn + bytes" where
  "urlsafe_b64decode s = a2b_base64 (map urlsafe_decode_translation s)"

text \<open>
  The characters of the URL-safe alphabet, as code points: \<^verbatim>\<open>A-Z\<close>, \<^verbatim>\<open>a-z\<close>, \<^verbatim>\<open>0-9\<close>, \<^verbatim>\<open>-\<close>
  and \<^verbatim>\<open>_\<close>.
\<close>

definition urlsafe_char :: "nat \<Rightarrow> bool" where
  "urlsafe_char c \<longleftrightarrow>
     (0x41 \<le> c \<and> c \<le> 0x5A) \<or> (0x61 \<le> c \<and> c \<le> 0x7A) \<or> (0x30 \<le> c \<and> c \<le> 0x39)
     \<or> c = 0x2D \<or> c = 0x5F"

section \<open>The form handler and the task of \<^verbatim>\<open>wsgi.py\<close>\<close>

text \<open>
  \<^verbatim>\<open>handle_form\<close>: \<open>file_data\<close> is what \<^verbatim>\<open>form.file.data.stream.read()\<close> returns, the bytes of
  the uploaded file. The result is the one element of the tuple passed to the task.
\<close>

definition handle_form :: "bytes \<Rightarrow> exn + str" where
  "handle_form file_data = utf8_decode (urlsafe_b64encode file_data)"

text \<open>
  The values a task returns or the result backend holds: \<^verbatim>\<open>None\<close>, a \<^verbatim>\<open>str\<close>, the
  dictionary with the keys \<^verbatim>\<open>lines\<close> and \<^verbatim>\<open>characters\<close>, or an exception instance.
\<close>

datatype py_value =
    PyNone
  | PyStr str
  | Statistics (lines: int) (characters: int)
  | PyExc exn

text \<open>
  The expression of the \<^verbatim>\<open>try\<close> block of \<^verbatim>\<open>my_task\<close>,
  \<^verbatim>\<open>urlsafe_b64decode(contents.encode('utf-8')).decode('utf-8')\<close>, in two parts: the
  bytes that \<^verbatim>\<open>urlsafe_b64decode\<close> returns, and their text.
\<close>

definition decode_bytes :: "str \<Rightarrow> exn + bytes" where
  "decode_bytes contents =
     (case utf8_encode contents of Inl e \<Rightarrow> Inl e | Inr raw \<Rightarrow> urlsafe_b64decode raw)"

definition decode_contents :: "str \<Rightarrow> exn + str" where
  "decode_contents contents =
     (case decode_bytes contents of Inl e \<Rightarrow> Inl e | Inr b \<Rightarrow> utf8_decode b)"

text \<open>
  \<^verbatim>\<open>random.randint(a, b)\<close> returns an integer \<open>N\<close> with \<open>a \<le> N \<le> b\<close>: it adds to \<open>a\<close> a number
  that the generator draws uniformly among \<open>0, \<dots>, b - a\<close>. The state of the generator is not
  part of the program: the number \<open>g\<close> stands for what the generator yields at the call,
  each of \<open>0, \<dots>, b - a\<close> being equally likely; a larger number is reduced to that range.
\<close>

definition randint :: "int \<Rightarrow> int \<Rightarrow> nat \<Rightarrow> int" where
  "randint a b g = a + int (g mod nat (b - a + 1))"

text \<open>
  An execution of the task: what it returns or raises, and the calls of \<^verbatim>\<open>time.sleep\<close> it
  made, in order, each with its number of seconds.
\<close>

record execution =
  returned :: "exn + py_value"
  slept :: "int list"

text \<open>
  \<^verbatim>\<open>my_task\<close>. The \<^verbatim>\<open>except\<close> clause names \<^verbatim>\<open>UnicodeDecodeError\<close> only: any other
  exception of the \<^verbatim>\<open>try\<close> block leaves the function at once, before \<^verbatim>\<open>time.sleep\<close>.
  \<^verbatim>\<open>contents.count('\n')\<close> counts the code point 10.
\<close>

definition my_task :: "str \<Rightarrow> nat \<Rightarrow> execution" where
  "my_task contents g =
     (case decode_contents contents of
        Inl UnicodeDecodeError \<Rightarrow>
          \<lparr>returned = Inr (PyStr (literal ''failed to decode.'')), slept = [randint 5 10 g]\<rparr>
      | Inl e \<Rightarrow>
          \<lparr>returned = Inl e, slept = []\<rparr>
      | Inr text \<Rightarrow>
          \<lparr>returned = Inr (Statistics (int (count_list text 10)) (int (length text))),
           slept = [randint 5 10 g]\<rparr>)"

section \<open>Celery: the worker, the result backend and \<^verbatim>\<open>AsyncResult\<close>\<close>

text \<open>
  The states of a task that this application can show. Celery's worker stores an entry
  for a task when the task function has ended: with the state \<^verbatim>\<open>SUCCESS\<close> and the value
  returned, or with the state \<^verbatim>\<open>FAILURE\<close> and the exception raised. The application sets no
  option that stores anything earlier, retries or revokes. A task identifier without an
  entry reads as \<^verbatim>\<open>PENDING\<close> with the result \<^verbatim>\<open>None\<close>. How long the backend keeps an entry is
  its own configuration and not part of the application: the model never removes one.
\<close>

datatype state = PENDING | SUCCESS | FAILURE

datatype settlement = Done py_value | Failed exn

type_synonym task_id = string
type_synonym backend = "task_id \<rightharpoonup> settlement"

definition settle :: "exn + py_value \<Rightarrow> settlement" where
  "settle r = (case r of Inr v \<Rightarrow> Done v | Inl e \<Rightarrow> Failed e)"

text \<open>\<^verbatim>\<open>AsyncResult(task, app=celery)\<close>, read against the backend.\<close>

record AsyncResult =
  task_id :: task_id
  status :: state
  result :: py_value

definition async_result :: "backend \<Rightarrow> task_id \<Rightarrow> AsyncResult" where
  "async_result be t =
     (case be t of
        None \<Rightarrow> \<lparr>task_id = t, status = PENDING, result = PyNone\<rparr>
      | Some (Done v) \<Rightarrow> \<lparr>task_id = t, status = SUCCESS, result = v\<rparr>
      | Some (Failed e) \<Rightarrow> \<lparr>task_id = t, status = FAILURE, result = PyExc e\<rparr>)"

definition successful :: "AsyncResult \<Rightarrow> bool" where
  "successful task \<longleftrightarrow> status task = SUCCESS"

section \<open>The routes of \<^verbatim>\<open>wsgi.py\<close>\<close>

text \<open>
  The keyword arguments \<^verbatim>\<open>check\<close> gives to \<^verbatim>\<open>jsonify\<close>. The key \<^verbatim>\<open>result\<close> is present
  (\<open>Some\<close>) in the first \<^verbatim>\<open>return\<close> and absent (\<open>None\<close>) in the second; a present key can
  hold \<^verbatim>\<open>None\<close>, which is JSON's \<^verbatim>\<open>null\<close>.
\<close>

record check_json =
  json_task_id :: task_id
  json_status :: state
  json_result :: "py_value option"

text \<open>
  \<^verbatim>\<open>jsonify\<close> serialises its keyword arguments with Flask's JSON encoder. Strings, \<^verbatim>\<open>None\<close>
  and a dictionary of integers are serialisable. An exception instance is not: the
  encoder raises \<^verbatim>\<open>TypeError\<close>, and the request ends with the HTTP status 500.
\<close>

definition jsonify :: "check_json \<Rightarrow> exn + check_json" where
  "jsonify kwargs =
     (case json_result kwargs of
        Some (PyExc e) \<Rightarrow> Inl TypeError
      | _ \<Rightarrow> Inr kwargs)"

definition check :: "backend \<Rightarrow> task_id \<Rightarrow> exn + check_json" where
  "check be t =
     (let task = async_result be t in
      if \<not> successful task then
        jsonify \<lparr>json_task_id = task_id task, json_status = status task,
                 json_result = Some (result task)\<rparr>
      else
        jsonify \<lparr>json_task_id = task_id task, json_status = status task,
                 json_result = None\<rparr>)"

text \<open>
  \<^verbatim>\<open>results\<close> either flashes the warning that the task is not yet complete and redirects
  to the home page, or renders \<^verbatim>\<open>results.html\<close> with the task.
\<close>

datatype flash = Not_yet_complete task_id

datatype response = Redirect_home flash | Render_results AsyncResult

definition results :: "backend \<Rightarrow> task_id \<Rightarrow> response" where
  "results be t =
     (let task = async_result be t in
      if \<not> successful task then Redirect_home (Not_yet_complete (task_id task))
      else Render_results task)"

section \<open>The application, the broker and the worker as one system\<close>

text \<open>
  The state of the system: the messages the broker has been given (task identifier and
  argument of \<^verbatim>\<open>my_task\<close>) and the result backend. The events:
  \<^item> \<open>Delay t contents\<close>: a producer calls \<^verbatim>\<open>my_task.delay(contents)\<close>, which sends the
    message under the new identifier \<open>t\<close>. Celery draws the identifier at random
    (\<^verbatim>\<open>uuid4\<close>); the event needs \<open>t\<close> to be unused.
  \<^item> \<open>Submit t file_data\<close>: \<^verbatim>\<open>home\<close> receives a valid form with the file \<open>file_data\<close> and
    calls \<^verbatim>\<open>my_task.delay(*handle_form(form))\<close>.
  \<^item> \<open>Execute t g\<close>: a worker receives the message \<open>t\<close>, runs \<^verbatim>\<open>my_task\<close> on its argument
    (with \<open>g\<close> for the random generator) and stores the outcome. The broker may deliver a
    message more than once, so the event stays possible for every message sent.
  \<^item> \<open>Check_status t\<close> and \<open>Fetch_results t\<close>: the routes \<^verbatim>\<open>check\<close> and \<^verbatim>\<open>results\<close>, which only
    read.
  An event that cannot happen in a state gives \<open>None\<close>.
\<close>

record system =
  broker :: "task_id \<rightharpoonup> str"
  backend :: backend

datatype event =
    Delay task_id str
  | Submit task_id bytes
  | Execute task_id nat
  | Check_status task_id
  | Fetch_results task_id

definition initial :: system where
  "initial = \<lparr>broker = Map.empty, backend = Map.empty\<rparr>"

definition delay :: "task_id \<Rightarrow> str \<Rightarrow> system \<Rightarrow> system option" where
  "delay t contents s =
     (case broker s t of
        Some _ \<Rightarrow> None
      | None \<Rightarrow> Some (s\<lparr>broker := (broker s)(t \<mapsto> contents)\<rparr>))"

fun step :: "event \<Rightarrow> system \<Rightarrow> system option" where
  "step (Delay t contents) s = delay t contents s"
| "step (Submit t file_data) s =
     (case handle_form file_data of
        Inl e \<Rightarrow> Some s
      | Inr contents \<Rightarrow> delay t contents s)"
| "step (Execute t g) s =
     (case broker s t of
        None \<Rightarrow> None
      | Some contents \<Rightarrow>
          Some (s\<lparr>backend := (backend s)(t \<mapsto> settle (returned (my_task contents g)))\<rparr>))"
| "step (Check_status t) s = Some s"
| "step (Fetch_results t) s = Some s"

fun run :: "event list \<Rightarrow> system \<Rightarrow> system option" where
  "run [] s = Some s"
| "run (e # es) s = (case step e s of None \<Rightarrow> None | Some s' \<Rightarrow> run es s')"

text \<open>What a client reads from the two routes after a sequence of events.\<close>

definition check_after :: "event list \<Rightarrow> task_id \<Rightarrow> (exn + check_json) option" where
  "check_after evs t =
     (case run evs initial of None \<Rightarrow> None | Some s \<Rightarrow> Some (check (backend s) t))"

definition results_after :: "event list \<Rightarrow> task_id \<Rightarrow> response option" where
  "results_after evs t =
     (case run evs initial of None \<Rightarrow> None | Some s \<Rightarrow> Some (results (backend s) t))"

text \<open>
  The invariant of the system: every entry of the backend is the outcome of \<^verbatim>\<open>my_task\<close> on
  the argument of the message sent under that identifier, whatever the generator gave.
\<close>

definition settled_from_message :: "system \<Rightarrow> bool" where
  "settled_from_message s \<longleftrightarrow>
     (\<forall>t m. backend s t = Some m \<longrightarrow>
        (\<exists>contents. broker s t = Some contents
           \<and> (\<forall>g. settle (returned (my_task contents g)) = m)))"

section \<open>Lemmas: the UTF-8 codec\<close>

lemma byte_unat: "n < 256 \<Longrightarrow> unat (of_nat n :: byte) = n"
  by (simp add: unat_of_nat)

lemmas byte_cmp = word_less_nat_alt word_le_nat_alt word_unat_eq_iff

lemma utf8_first_1:
  assumes "c < 0x80"
  shows "utf8_first (of_nat c) r = Some (c, 0)"
  using assms by (simp add: utf8_first_def byte_cmp byte_unat)

lemma utf8_first_2:
  assumes "0x80 \<le> c" "c < 0x800"
  shows "utf8_first (of_nat (0xC0 + c div 64)) (of_nat (0x80 + c mod 64) # r) = Some (c, 1)"
proof -
  have d: "c div 64 < 32" "2 \<le> c div 64" using assms by auto
  have u0: "unat (0xC0 + of_nat (c div 64) :: byte) = 0xC0 + c div 64"
    using byte_unat [of "0xC0 + c div 64"] d by simp
  have u1: "unat (0x80 + of_nat (c mod 64) :: byte) = 0x80 + c mod 64"
    using byte_unat [of "0x80 + c mod 64"] by simp
  show ?thesis
    using d by (simp add: utf8_first_def continuation_def byte_cmp u0 u1)
qed

lemma utf8_first_3:
  assumes "0x800 \<le> c" "c < 0x10000" "\<not> (0xD800 \<le> c \<and> c \<le> 0xDFFF)"
  shows "utf8_first (of_nat (0xE0 + c div 4096))
           (of_nat (0x80 + c div 64 mod 64) # of_nat (0x80 + c mod 64) # r) = Some (c, 2)"
proof -
  define q where "q = c div 64"
  have c4096: "c div 4096 = q div 64"
    using div_mult2_eq [of c 64 64] by (simp add: q_def)
  have cq: "c = q * 64 + c mod 64" by (simp add: q_def)
  have qb: "32 \<le> q" "q < 1024" using assms by (auto simp: q_def)
  have sur: "q < 864 \<or> 896 \<le> q" using assms by (auto simp: q_def)
  have d: "q div 64 < 16" using qb by auto
  have u0: "unat (0xE0 + of_nat (q div 64) :: byte) = 0xE0 + q div 64"
    using byte_unat [of "0xE0 + q div 64"] d by simp
  have u1: "unat (0x80 + of_nat (q mod 64) :: byte) = 0x80 + q mod 64"
    using byte_unat [of "0x80 + q mod 64"] by simp
  have u2: "unat (0x80 + of_nat (c mod 64) :: byte) = 0x80 + c mod 64"
    using byte_unat [of "0x80 + c mod 64"] by simp
  have m: "c mod 64 \<le> 63" "q mod 64 \<le> 63"
    using mod_less_divisor [of 64 c] mod_less_divisor [of 64 q] by linarith+
  have lo: "0 < q div 64 \<or> 32 \<le> q mod 64" using qb div_mult_mod_eq [of q 64] by arith
  have hi: "q div 64 = 13 \<longrightarrow> \<not> 32 \<le> q mod 64"
    using sur div_mult_mod_eq [of q 64] by arith
  have val: "(q div 64 * 64 + q mod 64) * 64 + c mod 64 = c" using cq by simp
  show ?thesis
    unfolding c4096 q_def [symmetric]
    using d m lo hi val
    by (simp add: utf8_first_def continuation_def byte_cmp u0 u1 u2 not_less)
qed

lemma utf8_first_4:
  assumes "0x10000 \<le> c" "c < 0x110000"
  shows "utf8_first (of_nat (0xF0 + c div 262144))
           (of_nat (0x80 + c div 4096 mod 64) # of_nat (0x80 + c div 64 mod 64)
            # of_nat (0x80 + c mod 64) # r) = Some (c, 3)"
proof -
  define q where "q = c div 64"
  define p where "p = q div 64"
  have c4096: "c div 4096 = p"
    using div_mult2_eq [of c 64 64] by (simp add: q_def p_def)
  have c262144: "c div 262144 = p div 64"
    using div_mult2_eq [of c 4096 64] c4096 by simp
  have cq: "c = q * 64 + c mod 64" by (simp add: q_def)
  have qp: "q = p * 64 + q mod 64" by (simp add: p_def)
  have pb: "16 \<le> p" "p < 272" using assms unfolding c4096 [symmetric] by auto
  have d: "p div 64 < 5" using pb by auto
  have u0: "unat (0xF0 + of_nat (p div 64) :: byte) = 0xF0 + p div 64"
    using byte_unat [of "0xF0 + p div 64"] d by simp
  have u1: "unat (0x80 + of_nat (p mod 64) :: byte) = 0x80 + p mod 64"
    using byte_unat [of "0x80 + p mod 64"] by simp
  have u2: "unat (0x80 + of_nat (q mod 64) :: byte) = 0x80 + q mod 64"
    using byte_unat [of "0x80 + q mod 64"] by simp
  have u3: "unat (0x80 + of_nat (c mod 64) :: byte) = 0x80 + c mod 64"
    using byte_unat [of "0x80 + c mod 64"] by simp
  have m: "c mod 64 \<le> 63" "q mod 64 \<le> 63" "p mod 64 \<le> 63"
    using mod_less_divisor [of 64 c] mod_less_divisor [of 64 q] mod_less_divisor [of 64 p]
    by linarith+
  have lo: "0 < p div 64 \<or> 16 \<le> p mod 64" using pb div_mult_mod_eq [of p 64] by arith
  have hi: "p div 64 = 4 \<longrightarrow> \<not> 16 \<le> p mod 64"
    using pb div_mult_mod_eq [of p 64] by arith
  have val: "((p div 64 * 64 + p mod 64) * 64 + q mod 64) * 64 + c mod 64 = c"
    using cq qp by simp
  show ?thesis
    unfolding c262144 c4096 q_def [symmetric]
    using d m lo hi val
    by (simp add: utf8_first_def continuation_def byte_cmp u0 u1 u2 u3 not_less)
qed

lemma utf8_decode_encode_char:
  assumes "utf8_encode_char c = Inr e"
  shows "utf8_decode (e @ r) = push_char c (utf8_decode r)"
proof -
  consider (a) "c < 0x80" | (b) "0x80 \<le> c" "c < 0x800"
    | (c) "0x800 \<le> c" "c < 0x10000" "\<not> (0xD800 \<le> c \<and> c \<le> 0xDFFF)"
    | (d) "0x10000 \<le> c" "c < 0x110000"
    using assms by (auto simp: utf8_encode_char_def not_less split: if_splits)
  then show ?thesis
  proof cases
    case a
    then show ?thesis using assms utf8_first_1 [OF a] by (auto simp: utf8_encode_char_def)
  next
    case b
    then show ?thesis using assms utf8_first_2 [OF b] by (auto simp: utf8_encode_char_def)
  next
    case c
    then show ?thesis using assms utf8_first_3 [OF c] by (auto simp: utf8_encode_char_def)
  next
    case d
    then show ?thesis using assms utf8_first_4 [OF d] by (auto simp: utf8_encode_char_def)
  qed
qed

lemma utf8_decode_encode: "utf8_encode t = Inr bs \<Longrightarrow> utf8_decode bs = Inr t"
proof (induction t arbitrary: bs)
  case Nil
  then show ?case by simp
next
  case (Cons c cs)
  then obtain e r where e: "utf8_encode_char c = Inr e" and r: "utf8_encode cs = Inr r"
    and bs: "bs = e @ r"
    by (auto split: sum.splits)
  show ?case using Cons.IH [OF r] utf8_decode_encode_char [OF e, of r] bs
    by (simp add: push_char_def)
qed

text \<open>
  The decoder accepts nothing but what the encoder produces: a byte sequence that decodes
  to a text is the encoding of that text.
\<close>

lemma split2:
  assumes "y < 64"
  shows "(x * 64 + y) div 64 = (x::nat)" "(x * 64 + y) mod 64 = y"
  using assms by simp_all

lemma utf8_first_encode:
  assumes "utf8_first b0 bs = Some (c, k)"
  shows "k \<le> length bs \<and> utf8_encode_char c = Inr (b0 # take k bs)"
proof -
  consider (a) "b0 < 0x80" | (b) "0xC2 \<le> b0" "b0 < 0xE0" | (c) "0xE0 \<le> b0" "b0 < 0xF0"
    | (d) "0xF0 \<le> b0" "b0 < 0xF5"
    using assms by (auto simp: utf8_first_def not_less split: if_splits)
  then show ?thesis
  proof cases
    case a
    with assms have "c = unat b0" "k = 0" by (auto simp: utf8_first_def)
    moreover from a have "unat b0 < 0x80" by (simp add: word_less_nat_alt)
    ultimately show ?thesis by (simp add: utf8_encode_char_def)
  next
    case b
    then have nb: "\<not> b0 < 0x80" "\<not> b0 < 0xC2" by (auto simp: byte_cmp)
    with b assms obtain b1 rest where bs: "bs = b1 # rest" and c1: "continuation b1"
      and c: "c = (unat b0 - 0xC0) * 64 + (unat b1 - 0x80)" and k: "k = 1"
      by (auto simp: utf8_first_def split: if_splits list.splits)
    define x where "x = unat b0 - 0xC0"
    define y where "y = unat b1 - 0x80"
    have xb: "2 \<le> x" "x < 32" and x0: "0xC0 + x = unat b0"
      using b by (auto simp: x_def byte_cmp)
    have yb: "y < 64" and y0: "0x80 + y = unat b1"
      using c1 by (auto simp: y_def continuation_def byte_cmp)
    have cxy: "c = x * 64 + y" by (simp add: c x_def y_def)
    have r: "128 \<le> c" "c < 2048" using xb yb unfolding cxy by arith+
    have d64: "c div 64 = x" "c mod 64 = y"
      unfolding cxy by (rule split2 [OF yb])+
    have e0: "of_nat (0xC0 + c div 64) = b0" unfolding d64(1) x0 by simp
    have e1: "of_nat (0x80 + c mod 64) = b1" unfolding d64(2) y0 by simp
    from r e0 e1 show ?thesis
      by (simp add: utf8_encode_char_def bs k)
  next
    case c
    then have nb: "\<not> b0 < 0x80" "\<not> b0 < 0xC2" "\<not> b0 < 0xE0" by (auto simp: byte_cmp)
    with c assms obtain b1 b2 rest where bs: "bs = b1 # b2 # rest"
      and c1: "continuation b1" and c2: "continuation b2"
      and lo: "\<not> (b0 = 0xE0 \<and> b1 < 0xA0)" and hi: "\<not> (b0 = 0xED \<and> b1 \<ge> 0xA0)"
      and cv: "c = ((unat b0 - 0xE0) * 64 + (unat b1 - 0x80)) * 64 + (unat b2 - 0x80)"
      and k: "k = 2"
      by (auto simp: utf8_first_def split: if_splits list.splits)
    define x where "x = unat b0 - 0xE0"
    define y where "y = unat b1 - 0x80"
    define z where "z = unat b2 - 0x80"
    have xb: "x < 16" and x0: "0xE0 + x = unat b0"
      using c by (auto simp: x_def byte_cmp)
    have yb: "y < 64" and y0: "0x80 + y = unat b1"
      using c1 by (auto simp: y_def continuation_def byte_cmp)
    have zb: "z < 64" and z0: "0x80 + z = unat b2"
      using c2 by (auto simp: z_def continuation_def byte_cmp)
    have lo': "x = 0 \<longrightarrow> 32 \<le> y"
      using lo c c1 by (auto simp: x_def y_def continuation_def byte_cmp)
    have hi': "x = 13 \<longrightarrow> y < 32"
      using hi c c1 by (auto simp: x_def y_def continuation_def byte_cmp)
    have cxy: "c = (x * 64 + y) * 64 + z" by (simp add: cv x_def y_def z_def)
    have d64: "c div 64 = x * 64 + y" "c mod 64 = z"
      unfolding cxy by (rule split2 [OF zb])+
    have "c div 4096 = c div 64 div 64"
      using div_mult2_eq [of c 64 64] by simp
    also have "\<dots> = (x * 64 + y) div 64" by (simp only: d64)
    also have "\<dots> = x" by (rule split2(1) [OF yb])
    finally have d4096: "c div 4096 = x" .
    have "c div 64 mod 64 = (x * 64 + y) mod 64" by (simp only: d64)
    also have "\<dots> = y" by (rule split2(2) [OF yb])
    finally have m: "c div 64 mod 64 = y" .
    define q where "q = x * 64 + y"
    have qb: "32 \<le> q" "q < 1024" "\<not> (864 \<le> q \<and> q \<le> 895)"
      using xb yb lo' hi' unfolding q_def by arith+
    have cq: "c = q * 64 + z" by (simp only: cxy q_def)
    have r: "2048 \<le> c" "c < 65536" "\<not> (55296 \<le> c \<and> c \<le> 57343)"
      using qb zb unfolding cq by arith+
    have e0: "of_nat (0xE0 + c div 4096) = b0" unfolding d4096 x0 by simp
    have e1: "of_nat (0x80 + c div 64 mod 64) = b1" unfolding m y0 by simp
    have e2: "of_nat (0x80 + c mod 64) = b2" unfolding d64(2) z0 by simp
    from r e0 e1 e2 show ?thesis
      by (simp add: utf8_encode_char_def bs k)
  next
    case d
    then have nb: "\<not> b0 < 0x80" "\<not> b0 < 0xC2" "\<not> b0 < 0xE0" "\<not> b0 < 0xF0"
      by (auto simp: byte_cmp)
    with d assms obtain b1 b2 b3 rest where bs: "bs = b1 # b2 # b3 # rest"
      and c1: "continuation b1" and c2: "continuation b2" and c3: "continuation b3"
      and lo: "\<not> (b0 = 0xF0 \<and> b1 < 0x90)" and hi: "\<not> (b0 = 0xF4 \<and> b1 \<ge> 0x90)"
      and cv: "c = (((unat b0 - 0xF0) * 64 + (unat b1 - 0x80)) * 64 + (unat b2 - 0x80)) * 64
                   + (unat b3 - 0x80)"
      and k: "k = 3"
      by (auto simp: utf8_first_def split: if_splits list.splits)
    define x where "x = unat b0 - 0xF0"
    define y where "y = unat b1 - 0x80"
    define z where "z = unat b2 - 0x80"
    define w where "w = unat b3 - 0x80"
    have xb: "x < 5" and x0: "0xF0 + x = unat b0"
      using d by (auto simp: x_def byte_cmp)
    have yb: "y < 64" and y0: "0x80 + y = unat b1"
      using c1 by (auto simp: y_def continuation_def byte_cmp)
    have zb: "z < 64" and z0: "0x80 + z = unat b2"
      using c2 by (auto simp: z_def continuation_def byte_cmp)
    have wb: "w < 64" and w0: "0x80 + w = unat b3"
      using c3 by (auto simp: w_def continuation_def byte_cmp)
    have lo': "x = 0 \<longrightarrow> 16 \<le> y"
      using lo d c1 by (auto simp: x_def y_def continuation_def byte_cmp)
    have hi': "x = 4 \<longrightarrow> y < 16"
      using hi d c1 by (auto simp: x_def y_def continuation_def byte_cmp)
    have cxy: "c = ((x * 64 + y) * 64 + z) * 64 + w" by (simp add: cv x_def y_def z_def w_def)
    have d64: "c div 64 = (x * 64 + y) * 64 + z" "c mod 64 = w"
      unfolding cxy by (rule split2 [OF wb])+
    have "c div 4096 = c div 64 div 64"
      using div_mult2_eq [of c 64 64] by simp
    also have "\<dots> = ((x * 64 + y) * 64 + z) div 64" by (simp only: d64)
    also have "\<dots> = x * 64 + y" by (rule split2(1) [OF zb])
    finally have d4096: "c div 4096 = x * 64 + y" .
    have "c div 262144 = c div 4096 div 64"
      using div_mult2_eq [of c 4096 64] by simp
    also have "\<dots> = (x * 64 + y) div 64" by (simp only: d4096)
    also have "\<dots> = x" by (rule split2(1) [OF yb])
    finally have d262144: "c div 262144 = x" .
    have "c div 4096 mod 64 = (x * 64 + y) mod 64" by (simp only: d4096)
    also have "\<dots> = y" by (rule split2(2) [OF yb])
    finally have m1: "c div 4096 mod 64 = y" .
    have "c div 64 mod 64 = ((x * 64 + y) * 64 + z) mod 64" by (simp only: d64)
    also have "\<dots> = z" by (rule split2(2) [OF zb])
    finally have m2: "c div 64 mod 64 = z" .
    define p where "p = x * 64 + y"
    define q where "q = p * 64 + z"
    have pb: "16 \<le> p" "p < 272"
      using xb yb lo' hi' unfolding p_def by arith+
    have qb: "1024 \<le> q" "q < 17408"
      using pb zb unfolding q_def by arith+
    have cq: "c = q * 64 + w" by (simp only: cxy q_def p_def)
    have r: "65536 \<le> c" "c < 1114112"
      using qb wb unfolding cq by arith+
    have e0: "of_nat (0xF0 + c div 262144) = b0" unfolding d262144 x0 by simp
    have e1: "of_nat (0x80 + c div 4096 mod 64) = b1" unfolding m1 y0 by simp
    have e2: "of_nat (0x80 + c div 64 mod 64) = b2" unfolding m2 z0 by simp
    have e3: "of_nat (0x80 + c mod 64) = b3" unfolding d64(2) w0 by simp
    from r e0 e1 e2 e3 show ?thesis
      by (simp add: utf8_encode_char_def bs k)
  qed
qed

lemma utf8_encode_decode: "utf8_decode bs = Inr t \<Longrightarrow> utf8_encode t = Inr bs"
proof (induction bs arbitrary: t rule: utf8_decode.induct)
  case 1
  then show ?case by simp
next
  case (2 b0 bs)
  from "2.prems" obtain c k t' where f: "utf8_first b0 bs = Some (c, k)"
    and d: "utf8_decode (drop k bs) = Inr t'" and t: "t = c # t'"
    by (auto simp: push_char_def split: option.splits sum.splits)
  from utf8_first_encode [OF f] have e: "utf8_encode_char c = Inr (b0 # take k bs)" by simp
  from "2.IH" [OF f refl d] have "utf8_encode t' = Inr (drop k bs)" .
  with e t show ?case by simp
qed

text \<open>On bytes below \<^verbatim>\<open>0x80\<close> (ASCII) both directions are the identity on the numbers.\<close>

lemma utf8_decode_ascii:
  "list_all (\<lambda>b. b < 0x80) bs \<Longrightarrow> utf8_decode bs = Inr (map unat bs)"
  by (induction bs) (simp_all add: utf8_first_def push_char_def)

lemma utf8_encode_ascii:
  "list_all (\<lambda>b. b < 0x80) bs \<Longrightarrow> utf8_encode (map unat bs) = Inr bs"
  by (induction bs) (simp_all add: utf8_encode_char_def byte_cmp)

section \<open>Lemmas: the base64 codec\<close>

lemma upto_64: "(\<forall>n<64. P (n::nat)) = (\<forall>n\<in>set [0..<64]. P n)"
  by auto

lemma table_inverse:
  "\<forall>n<64. urlsafe_decode_translation (urlsafe_encode_translation (table_b2a_base64 ! n))
            \<noteq> BASE64_PAD
        \<and> table_a2b_base64
            (urlsafe_decode_translation (urlsafe_encode_translation (table_b2a_base64 ! n)))
          = Some (of_nat n)"
  unfolding upto_64
  by (simp add: table_b2a_base64_def BASE64_PAD_def urlsafe_decode_translation_def
        urlsafe_encode_translation_def table_a2b_base64_def upt_rec)

lemma table_urlsafe:
  "\<forall>n<64. urlsafe_char (unat (urlsafe_encode_translation (table_b2a_base64 ! n)))"
  unfolding upto_64
  by (simp add: table_b2a_base64_def urlsafe_encode_translation_def urlsafe_char_def upt_rec)

lemma sextet_char:
  assumes "unat s < 64"
  shows "urlsafe_decode_translation (urlsafe_encode_translation (b2a_char s)) \<noteq> BASE64_PAD"
    and "table_a2b_base64 (urlsafe_decode_translation (urlsafe_encode_translation (b2a_char s)))
         = Some s"
    and "urlsafe_char (unat (urlsafe_encode_translation (b2a_char s)))"
  using assms table_inverse table_urlsafe by (auto simp: b2a_char_def)

lemma sextet_bound:
  assumes "take_bit 6 s = s"
  shows "unat (s::byte) < 64"
proof -
  have "unat (take_bit 6 s) = take_bit 6 (unat s)"
    by (simp add: unsigned_take_bit_eq)
  moreover have "take_bit 6 (unat s) < 2 ^ 6"
    by (rule take_bit_nat_less_exp)
  ultimately show ?thesis using assms by simp
qed

lemma mask_3: "(3::byte) = mask 2" and mask_f: "(0xf::byte) = mask 4"
  and mask_3f: "(0x3f::byte) = mask 6"
  by (simp_all add: mask_eq_exp_minus_1)

lemma shift_back:
  "2 \<le> n \<Longrightarrow> Suc (Suc (n - 2)) = n" "4 \<le> n \<Longrightarrow> 4 + (n - 4) = n"
  "6 \<le> n \<Longrightarrow> 6 + (n - 6) = n"
  by simp_all

text \<open>The four groups of six bits that \<open>b2a_base64\<close> cuts are six bits wide.\<close>

lemma sextet_1: "take_bit 6 (drop_bit 2 (a::byte)) = drop_bit 2 a"
  by (rule bit_word_eqI) (auto simp: bit_simps not_less dest: bit_imp_le_length)

lemma sextet_2:
  "take_bit 6 (push_bit 4 (a AND 3) OR drop_bit 4 (b::byte)) = push_bit 4 (a AND 3) OR drop_bit 4 b"
  unfolding mask_3 by (rule bit_word_eqI) (auto simp: bit_simps not_less dest: bit_imp_le_length)

lemma sextet_3:
  "take_bit 6 (push_bit 2 (b AND 0xf) OR drop_bit 6 (c::byte))
   = push_bit 2 (b AND 0xf) OR drop_bit 6 c"
  unfolding mask_f by (rule bit_word_eqI) (auto simp: bit_simps not_less dest: bit_imp_le_length)

lemma sextet_4: "take_bit 6 ((c::byte) AND 0x3f) = c AND 0x3f"
  unfolding mask_3f by (rule bit_word_eqI) (auto simp: bit_simps not_less dest: bit_imp_le_length)

lemma sextet_2_last: "take_bit 6 (push_bit 4 ((a::byte) AND 3)) = push_bit 4 (a AND 3)"
  unfolding mask_3 by (rule bit_word_eqI) (auto simp: bit_simps not_less dest: bit_imp_le_length)

lemma sextet_3_last: "take_bit 6 (push_bit 2 ((b::byte) AND 0xf)) = push_bit 2 (b AND 0xf)"
  unfolding mask_f by (rule bit_word_eqI) (auto simp: bit_simps not_less dest: bit_imp_le_length)

text \<open>What \<open>a2b_loop\<close> writes from these groups are the bytes they were cut from.\<close>

lemma rejoin_1:
  "push_bit 2 (drop_bit 2 a) OR drop_bit 4 (push_bit 4 (a AND 3) OR drop_bit 4 b) = (a::byte)"
  unfolding mask_3
proof (rule bit_word_eqI)
  fix n assume "n < LENGTH(8)"
  then show "bit (push_bit 2 (drop_bit 2 a)
                  OR drop_bit 4 (push_bit 4 (a AND mask 2) OR drop_bit 4 b)) n = bit a n"
    by (cases "2 \<le> n") (auto simp: bit_simps not_less shift_back dest: bit_imp_le_length)
qed

lemma rejoin_2:
  "push_bit 4 ((push_bit 4 (a AND 3) OR drop_bit 4 b) AND 0xf)
   OR drop_bit 2 (push_bit 2 (b AND 0xf) OR drop_bit 6 c) = (b::byte)"
  unfolding mask_3 mask_f
proof (rule bit_word_eqI)
  fix n assume "n < LENGTH(8)"
  then show "bit (push_bit 4 ((push_bit 4 (a AND mask 2) OR drop_bit 4 b) AND mask 4)
                  OR drop_bit 2 (push_bit 2 (b AND mask 4) OR drop_bit 6 c)) n = bit b n"
    by (cases "4 \<le> n") (auto simp: bit_simps not_less shift_back dest: bit_imp_le_length)
qed

lemma rejoin_3:
  "push_bit 6 ((push_bit 2 (b AND 0xf) OR drop_bit 6 c) AND 3) OR (c AND 0x3f) = (c::byte)"
  unfolding mask_3 mask_f mask_3f
proof (rule bit_word_eqI)
  fix n assume "n < LENGTH(8)"
  then show "bit (push_bit 6 ((push_bit 2 (b AND mask 4) OR drop_bit 6 c) AND mask 2)
                  OR (c AND mask 6)) n = bit c n"
    by (cases "6 \<le> n") (auto simp: bit_simps not_less shift_back dest: bit_imp_le_length)
qed

lemma rejoin_1_last:
  "push_bit 2 (drop_bit 2 a) OR drop_bit 4 (push_bit 4 (a AND 3)) = (a::byte)"
  unfolding mask_3
proof (rule bit_word_eqI)
  fix n assume "n < LENGTH(8)"
  then show "bit (push_bit 2 (drop_bit 2 a) OR drop_bit 4 (push_bit 4 (a AND mask 2))) n
             = bit a n"
    by (cases "2 \<le> n") (auto simp: bit_simps not_less shift_back dest: bit_imp_le_length)
qed

lemma rejoin_2_last:
  "push_bit 4 ((push_bit 4 (a AND 3) OR drop_bit 4 b) AND 0xf)
   OR drop_bit 2 (push_bit 2 (b AND 0xf)) = (b::byte)"
  unfolding mask_3 mask_f
proof (rule bit_word_eqI)
  fix n assume "n < LENGTH(8)"
  then show "bit (push_bit 4 ((push_bit 4 (a AND mask 2) OR drop_bit 4 b) AND mask 4)
                  OR drop_bit 2 (push_bit 2 (b AND mask 4))) n = bit b n"
    by (cases "4 \<le> n") (auto simp: bit_simps not_less shift_back dest: bit_imp_le_length)
qed

lemma pad_translated:
  "urlsafe_decode_translation (urlsafe_encode_translation BASE64_PAD) = BASE64_PAD"
  by (simp add: urlsafe_decode_translation_def urlsafe_encode_translation_def BASE64_PAD_def)

lemma a2b_loop_pad:
  "a2b_loop (BASE64_PAD # rest) quad_pos leftchar pads bin_data =
     (if quad_pos \<ge> 2 \<and> quad_pos + (pads + 1) \<ge> 4 then Inr bin_data
      else a2b_loop rest quad_pos leftchar (if quad_pos \<ge> 2 then pads + 1 else pads) bin_data)"
  by simp

lemma a2b_loop_sextet:
  assumes "take_bit 6 s = s"
  shows "a2b_loop (urlsafe_decode_translation (urlsafe_encode_translation (b2a_char s)) # rest)
           quad_pos leftchar pads bin_data =
         (if quad_pos = 0 then a2b_loop rest 1 s 0 bin_data
          else if quad_pos = 1 then
            a2b_loop rest 2 (s AND 0x0f) 0 (bin_data @ [push_bit 2 leftchar OR drop_bit 4 s])
          else if quad_pos = 2 then
            a2b_loop rest 3 (s AND 0x03) 0 (bin_data @ [push_bit 4 leftchar OR drop_bit 2 s])
          else
            a2b_loop rest 0 0 0 (bin_data @ [push_bit 6 leftchar OR s]))"
  using sextet_char(1,2) [OF sextet_bound [OF assms]] by simp

lemma a2b_loop_b2a:
  "a2b_loop (map urlsafe_decode_translation (map urlsafe_encode_translation (b2a_base64 bs)))
      0 0 0 acc = Inr (acc @ bs)"
proof (induction bs arbitrary: acc rule: b2a_base64.induct)
  case (1 a b c rest)
  show ?case
    by (simp only: b2a_base64.simps list.map a2b_loop_sextet [OF sextet_1]
          a2b_loop_sextet [OF sextet_2] a2b_loop_sextet [OF sextet_3]
          a2b_loop_sextet [OF sextet_4] "1.IH" rejoin_1 rejoin_2 rejoin_3)
       simp
next
  case (2 a b)
  show ?case
    by (simp only: b2a_base64.simps list.map a2b_loop_sextet [OF sextet_1]
          a2b_loop_sextet [OF sextet_2] a2b_loop_sextet [OF sextet_3_last]
          pad_translated a2b_loop_pad rejoin_1 rejoin_2_last)
       simp
next
  case (3 a)
  show ?case
    by (simp only: b2a_base64.simps list.map a2b_loop_sextet [OF sextet_1]
          a2b_loop_sextet [OF sextet_2_last] pad_translated a2b_loop_pad rejoin_1_last)
       simp
next
  case 4
  show ?case by simp
qed

lemma urlsafe_b64decode_encode: "urlsafe_b64decode (urlsafe_b64encode b) = Inr b"
  unfolding urlsafe_b64decode_def urlsafe_b64encode_def a2b_base64_def
  using a2b_loop_b2a [of b "[]"] by simp

text \<open>
  The encoded text is made of characters of the URL-safe alphabet followed by at most two
  padding characters.
\<close>

lemma pad_code: "unat (urlsafe_encode_translation BASE64_PAD) = 0x3D"
  by (simp add: urlsafe_encode_translation_def BASE64_PAD_def)

lemma urlsafe_b64encode_shape:
  "\<exists>body k. map unat (urlsafe_b64encode b) = body @ replicate k 0x3D
            \<and> k \<le> 2 \<and> list_all urlsafe_char body"
  unfolding urlsafe_b64encode_def
proof (induction b rule: b2a_base64.induct)
  case (1 a b c rest)
  then obtain body k where
    r: "map unat (map urlsafe_encode_translation (b2a_base64 rest)) = body @ replicate k 0x3D"
    and k: "k \<le> 2" and ok: "list_all urlsafe_char body"
    by blast
  let ?q = "map unat (map urlsafe_encode_translation
              [b2a_char (drop_bit 2 a), b2a_char (push_bit 4 (a AND 3) OR drop_bit 4 b),
               b2a_char (push_bit 2 (b AND 0xf) OR drop_bit 6 c), b2a_char (c AND 0x3f)])"
  have "map unat (map urlsafe_encode_translation (b2a_base64 (a # b # c # rest)))
        = (?q @ body) @ replicate k 0x3D"
    using r by simp
  moreover have "list_all urlsafe_char (?q @ body)"
    using ok sextet_char(3) [OF sextet_bound [OF sextet_1]]
      sextet_char(3) [OF sextet_bound [OF sextet_2]]
      sextet_char(3) [OF sextet_bound [OF sextet_3]]
      sextet_char(3) [OF sextet_bound [OF sextet_4]]
    by simp
  ultimately show ?case using k by blast
next
  case (2 a b)
  let ?q = "map unat (map urlsafe_encode_translation
              [b2a_char (drop_bit 2 a), b2a_char (push_bit 4 (a AND 3) OR drop_bit 4 b),
               b2a_char (push_bit 2 (b AND 0xf))])"
  have "map unat (map urlsafe_encode_translation (b2a_base64 [a, b])) = ?q @ replicate 1 0x3D"
    by (simp add: pad_code)
  moreover have "list_all urlsafe_char ?q"
    using sextet_char(3) [OF sextet_bound [OF sextet_1]]
      sextet_char(3) [OF sextet_bound [OF sextet_2]]
      sextet_char(3) [OF sextet_bound [OF sextet_3_last]]
    by simp
  ultimately show ?case by (metis one_le_numeral)
next
  case (3 a)
  let ?q = "map unat (map urlsafe_encode_translation
              [b2a_char (drop_bit 2 a), b2a_char (push_bit 4 (a AND 3))])"
  have "map unat (map urlsafe_encode_translation (b2a_base64 [a])) = ?q @ replicate 2 0x3D"
    by (simp add: pad_code numeral_2_eq_2)
  moreover have "list_all urlsafe_char ?q"
    using sextet_char(3) [OF sextet_bound [OF sextet_1]]
      sextet_char(3) [OF sextet_bound [OF sextet_2_last]]
    by simp
  ultimately show ?case by (metis order_refl)
next
  case 4
  show ?case by (rule exI [of _ "[]"], rule exI [of _ 0]) simp
qed

section \<open>Lemmas: the payload between \<^verbatim>\<open>handle_form\<close> and \<^verbatim>\<open>my_task\<close>\<close>

lemma urlsafe_char_ascii: "urlsafe_char c \<Longrightarrow> c < 0x80"
  by (auto simp: urlsafe_char_def)

lemma urlsafe_b64encode_ascii: "list_all (\<lambda>b. b < 0x80) (urlsafe_b64encode b)"
proof -
  obtain body k where
    shape: "map unat (urlsafe_b64encode b) = body @ replicate k 0x3D"
    and ok: "list_all urlsafe_char body"
    using urlsafe_b64encode_shape by blast
  have "\<forall>n \<in> set (map unat (urlsafe_b64encode b)). n < 0x80"
    unfolding shape using ok urlsafe_char_ascii by (auto simp: list_all_iff)
  then show ?thesis
    by (simp add: list_all_iff word_less_nat_alt)
qed

lemma handle_form_payload: "handle_form b = Inr (map unat (urlsafe_b64encode b))"
  unfolding handle_form_def by (rule utf8_decode_ascii [OF urlsafe_b64encode_ascii])

lemma decode_bytes_payload: "decode_bytes (map unat (urlsafe_b64encode b)) = Inr b"
  by (simp add: decode_bytes_def utf8_encode_ascii [OF urlsafe_b64encode_ascii]
        urlsafe_b64decode_encode)

lemma decode_contents_payload: "decode_contents (map unat (urlsafe_b64encode b)) = utf8_decode b"
  by (simp add: decode_contents_def decode_bytes_payload)

lemma push_char_error: "push_char c r = Inl e \<Longrightarrow> r = Inl e"
  by (auto simp: push_char_def split: sum.splits)

lemma utf8_decode_error: "utf8_decode bs = Inl e \<Longrightarrow> e = UnicodeDecodeError"
proof (induction bs rule: utf8_decode.induct)
  case 1
  then show ?case by simp
next
  case (2 b0 bs)
  show ?case
  proof (cases "utf8_first b0 bs")
    case None
    with "2.prems" show ?thesis by simp
  next
    case (Some ck)
    obtain c k where ck: "ck = (c, k)" by (cases ck)
    from "2.prems" Some ck have "push_char c (utf8_decode (drop k bs)) = Inl e" by simp
    then have "utf8_decode (drop k bs) = Inl e" by (rule push_char_error)
    with "2.IH" Some ck show ?thesis by simp
  qed
qed

section \<open>Lemmas: the task\<close>

lemma my_task_returned:
  "returned (my_task contents g) =
     (case decode_contents contents of
        Inl UnicodeDecodeError \<Rightarrow> Inr (PyStr (literal ''failed to decode.''))
      | Inl e \<Rightarrow> Inl e
      | Inr text \<Rightarrow> Inr (Statistics (int (count_list text 10)) (int (length text))))"
  by (simp add: my_task_def split: sum.splits exn.splits)

lemma my_task_slept:
  "slept (my_task contents g) =
     (case returned (my_task contents g) of Inl e \<Rightarrow> [] | Inr v \<Rightarrow> [randint 5 10 g])"
  by (simp add: my_task_def split: sum.splits exn.splits)

lemma my_task_returned_same:
  "returned (my_task contents g) = returned (my_task contents g')"
  by (simp add: my_task_returned)

lemma randint_5_10: "5 \<le> randint 5 10 g" "randint 5 10 g \<le> 10"
  by (simp_all add: randint_def)

lemma randint_5_10_onto: "5 \<le> d \<Longrightarrow> d \<le> 10 \<Longrightarrow> randint 5 10 (nat (d - 5)) = d"
  by (simp add: randint_def)

section \<open>Lemmas: the system\<close>

lemma initial_settled: "settled_from_message initial"
  by (simp add: settled_from_message_def initial_def)

lemma delay_settled:
  assumes "delay t contents s = Some s'" "settled_from_message s"
  shows "settled_from_message s'"
proof -
  from assms(1) have fresh: "broker s t = None"
    and s': "s' = s\<lparr>broker := (broker s)(t \<mapsto> contents)\<rparr>"
    by (auto simp: delay_def split: option.splits)
  show ?thesis
    unfolding settled_from_message_def
  proof (intro allI impI)
    fix u m assume "backend s' u = Some m"
    then have m: "backend s u = Some m" by (simp add: s')
    with assms(2) obtain c where c: "broker s u = Some c"
      and out: "\<forall>g. settle (returned (my_task c g)) = m"
      unfolding settled_from_message_def by blast
    from c fresh have "u \<noteq> t" by auto
    with c out show "\<exists>contents. broker s' u = Some contents
        \<and> (\<forall>g. settle (returned (my_task contents g)) = m)"
      by (simp add: s')
  qed
qed

lemma step_settled:
  assumes "step e s = Some s'" "settled_from_message s"
  shows "settled_from_message s'"
proof (cases e)
  case (Delay t contents)
  with assms show ?thesis by (auto intro: delay_settled)
next
  case (Submit t file_data)
  with assms show ?thesis by (auto split: sum.splits intro: delay_settled)
next
  case (Execute t g)
  with assms(1) obtain c where c: "broker s t = Some c"
    and s': "s' = s\<lparr>backend := (backend s)(t \<mapsto> settle (returned (my_task c g)))\<rparr>"
    by (auto split: option.splits)
  show ?thesis
    unfolding settled_from_message_def
  proof (intro allI impI)
    fix u m assume m: "backend s' u = Some m"
    show "\<exists>contents. broker s' u = Some contents
        \<and> (\<forall>g. settle (returned (my_task contents g)) = m)"
    proof (cases "u = t")
      case True
      with m have "m = settle (returned (my_task c g))" by (simp add: s')
      then have "\<forall>g'. settle (returned (my_task c g')) = m"
        by (simp add: my_task_returned)
      with True c show ?thesis by (simp add: s')
    next
      case False
      with m have "backend s u = Some m" by (simp add: s')
      with assms(2) show ?thesis
        unfolding settled_from_message_def by (simp add: s')
    qed
  qed
next
  case (Check_status t)
  with assms show ?thesis by simp
next
  case (Fetch_results t)
  with assms show ?thesis by simp
qed

lemma delay_keeps:
  assumes "delay t contents s = Some s'"
  shows "backend s' = backend s"
  using assms by (auto simp: delay_def split: option.splits)

lemma step_keeps:
  assumes "step e s = Some s'" "settled_from_message s" "backend s t = Some m"
  shows "backend s' t = Some m"
proof (cases e)
  case (Delay u contents)
  with assms show ?thesis by (auto dest: delay_keeps)
next
  case (Submit u file_data)
  with assms show ?thesis by (auto split: sum.splits dest: delay_keeps)
next
  case (Execute u g)
  with assms(1) obtain c where c: "broker s u = Some c"
    and s': "s' = s\<lparr>backend := (backend s)(u \<mapsto> settle (returned (my_task c g)))\<rparr>"
    by (auto split: option.splits)
  show ?thesis
  proof (cases "u = t")
    case True
    from assms(2,3) obtain c' where "broker s t = Some c'"
      and "\<forall>g. settle (returned (my_task c' g)) = m"
      unfolding settled_from_message_def by blast
    with c True show ?thesis by (simp add: s')
  next
    case False
    with assms(3) show ?thesis by (simp add: s')
  qed
next
  case (Check_status u)
  with assms show ?thesis by simp
next
  case (Fetch_results u)
  with assms show ?thesis by simp
qed

lemma run_settled:
  "run evs s = Some s' \<Longrightarrow> settled_from_message s \<Longrightarrow> settled_from_message s'"
proof (induction evs arbitrary: s)
  case Nil
  then show ?case by simp
next
  case (Cons e evs)
  then show ?case by (auto split: option.splits dest: step_settled)
qed

lemma run_keeps:
  "run evs s = Some s' \<Longrightarrow> settled_from_message s \<Longrightarrow> backend s t = Some m
   \<Longrightarrow> backend s' t = Some m"
proof (induction evs arbitrary: s)
  case Nil
  then show ?case by simp
next
  case (Cons e evs)
  from Cons.prems(1) obtain s1 where e: "step e s = Some s1" and r: "run evs s1 = Some s'"
    by (auto split: option.splits)
  show ?case
    using Cons.IH [OF r step_settled [OF e Cons.prems(2)] step_keeps [OF e Cons.prems(2,3)]] .
qed

lemma status_entry:
  "status (async_result be t) \<noteq> PENDING \<Longrightarrow> \<exists>m. be t = Some m"
  by (auto simp: async_result_def split: option.splits)

text \<open>
  Once a job has an entry in the backend, its state, the answer (or the error) of
  \<^verbatim>\<open>check\<close> and the answer of \<^verbatim>\<open>results\<close> stay as they are, whatever events follow.
\<close>

lemma terminal_state_stays:
  assumes "run evs initial = Some s" "run evs' s = Some s'"
    and "status (async_result (backend s) t) = SUCCESS
         \<or> status (async_result (backend s) t) = FAILURE"
  shows "status (async_result (backend s') t) = status (async_result (backend s) t)
       \<and> check (backend s') t = check (backend s) t
       \<and> results (backend s') t = results (backend s) t"
proof -
  from assms(3) have "status (async_result (backend s) t) \<noteq> PENDING"
    by auto
  then obtain m where m: "backend s t = Some m"
    using status_entry by blast
  have "settled_from_message s"
    using run_settled [OF assms(1) initial_settled] .
  then have "backend s' t = Some m"
    using run_keeps [OF assms(2) _ m] by blast
  with m have "async_result (backend s') t = async_result (backend s) t"
    by (simp add: async_result_def)
  then show ?thesis
    by (simp add: check_def results_def Let_def)
qed

section \<open>Lemmas: concrete payloads\<close>

lemmas codec_defs =
  literal_def urlsafe_b64encode_def b2a_char_def table_b2a_base64_def BASE64_PAD_def
  urlsafe_encode_translation_def urlsafe_b64decode_def a2b_base64_def
  urlsafe_decode_translation_def table_a2b_base64_def utf8_encode_char_def utf8_first_def
  continuation_def push_char_def

lemma payload_ff: "map unat (urlsafe_b64encode [0xFF]) = literal ''_w==''"
  by (simp add: codec_defs)

lemma payload_e9: "map unat (urlsafe_b64encode [0xC3, 0xA9]) = literal ''w6k=''"
  by (simp add: codec_defs)

lemma utf8_decode_ff: "utf8_decode [0xFF] = Inl UnicodeDecodeError"
  by (simp add: codec_defs)

lemma decode_bytes_ab: "decode_bytes (literal ''ab'') = Inl Binascii_Error"
  by (simp add: decode_bytes_def codec_defs)

lemma decode_bytes_a_bang: "decode_bytes (literal ''a!'') = Inl Binascii_Error"
  by (simp add: decode_bytes_def codec_defs)

lemma handle_form_ff: "handle_form [0xFF] = Inr (literal ''_w=='')"
  using handle_form_payload [of "[0xFF]"] unfolding payload_ff .

lemma decode_bytes_ff: "decode_bytes (literal ''_w=='') = Inr [0xFF]"
  using decode_bytes_payload [of "[0xFF]"] unfolding payload_ff .

lemma decode_contents_ff: "decode_contents (literal ''_w=='') = Inl UnicodeDecodeError"
  using decode_contents_payload [of "[0xFF]"] unfolding payload_ff utf8_decode_ff .

lemma handle_form_e9: "handle_form [0xC3, 0xA9] = Inr (literal ''w6k='')"
  using handle_form_payload [of "[0xC3, 0xA9]"] unfolding payload_e9 .

lemma run_delay_execute:
  "run [Delay t contents, Execute t g] initial =
     Some \<lparr>broker = [t \<mapsto> contents],
           backend = [t \<mapsto> settle (returned (my_task contents g))]\<rparr>"
  by (simp add: delay_def initial_def)

lemma run_submit_execute:
  "run [Submit t b, Execute t g] initial =
     Some \<lparr>broker = [t \<mapsto> map unat (urlsafe_b64encode b)],
           backend = [t \<mapsto> settle (returned (my_task (map unat (urlsafe_b64encode b)) g))]\<rparr>"
  by (simp add: handle_form_payload delay_def initial_def)

lemma my_task_payload:
  "returned (my_task (map unat (urlsafe_b64encode b)) g) =
     (case utf8_decode b of
        Inl e \<Rightarrow> Inr (PyStr (literal ''failed to decode.''))
      | Inr text \<Rightarrow> Inr (Statistics (int (count_list text 10)) (int (length text))))"
  by (auto simp: my_task_returned decode_contents_payload split: sum.splits exn.splits
        dest: utf8_decode_error)

section \<open>The claims\<close>

subsection \<open>C1: the payload codec\<close>

text \<open>
  C1 as stated, for every byte sequence \<open>b\<close>, decoding the encoded payload (base64, then
  UTF-8 text) yields \<open>b\<close>, fails on the file that holds the single byte \<^verbatim>\<open>0xFF\<close>: its payload
  is \<^verbatim>\<open>_w==\<close>, and the decode step of \<^verbatim>\<open>my_task\<close> on it raises \<^verbatim>\<open>UnicodeDecodeError\<close>.
\<close>

theorem payload_round_trip_counterexample:
  "handle_form [0xFF] = Inr (literal ''_w=='')
   \<and> decode_contents (literal ''_w=='') = Inl UnicodeDecodeError"
  using handle_form_ff decode_contents_ff by (rule conjI)

text \<open>
  C1, amended. For every byte sequence \<open>b\<close> (the empty one and arbitrary binary bytes
  included), \<^verbatim>\<open>handle_form\<close> returns a payload on which the base64 part of the decode step
  of \<^verbatim>\<open>my_task\<close> yields exactly \<open>b\<close>. The UTF-8 decoding that follows yields a text exactly
  when \<open>b\<close> is the UTF-8 encoding of that text, and on bytes that are not well-formed
  UTF-8 (the encoding of no text) the decode step raises \<^verbatim>\<open>UnicodeDecodeError\<close>.
\<close>

theorem payload_round_trip:
  "\<exists>p. handle_form b = Inr p \<and> decode_bytes p = Inr b
     \<and> (\<forall>text. decode_contents p = Inr text \<longleftrightarrow> utf8_encode text = Inr b)
     \<and> ((\<nexists>text. utf8_encode text = Inr b) \<longrightarrow> decode_contents p = Inl UnicodeDecodeError)"
proof -
  let ?p = "map unat (urlsafe_b64encode b)"
  have d: "decode_contents ?p = utf8_decode b"
    by (rule decode_contents_payload)
  have iff: "decode_contents ?p = Inr tx \<longleftrightarrow> utf8_encode tx = Inr b" for tx
    unfolding d using utf8_decode_encode utf8_encode_decode by blast
  have err: "decode_contents ?p = Inl UnicodeDecodeError" if "\<nexists>text. utf8_encode text = Inr b"
  proof (cases "utf8_decode b")
    case (Inl e)
    then show ?thesis using utf8_decode_error [OF Inl] d by simp
  next
    case (Inr tx)
    then show ?thesis using that utf8_encode_decode by blast
  qed
  from iff err show ?thesis
    using handle_form_payload [of b] decode_bytes_payload [of b] by blast
qed

theorem payload_round_trip_witness:
  "utf8_encode [0xE9] = Inr [0xC3, 0xA9]
   \<and> handle_form [0xC3, 0xA9] = Inr (literal ''w6k='')
   \<and> decode_contents (literal ''w6k='') = Inr [0xE9]
   \<and> (\<nexists>text. utf8_encode text = Inr [0xFF])
   \<and> decode_contents (literal ''_w=='') = Inl UnicodeDecodeError"
proof -
  have enc: "utf8_encode [0xE9] = Inr [0xC3, 0xA9]"
    by (simp add: utf8_encode_char_def)
  have none: "\<nexists>text. utf8_encode text = Inr [0xFF]"
  proof
    assume "\<exists>text. utf8_encode text = Inr [0xFF]"
    then obtain tx where "utf8_encode tx = Inr [0xFF]" ..
    then have "utf8_decode [0xFF] = Inr tx" by (rule utf8_decode_encode)
    then show False unfolding utf8_decode_ff by simp
  qed
  from payload_round_trip [of "[0xC3, 0xA9]"] obtain p where
    p: "handle_form [0xC3, 0xA9] = Inr p"
    and iff: "\<forall>text. decode_contents p = Inr text \<longleftrightarrow> utf8_encode text = Inr [0xC3, 0xA9]"
    by blast
  from p have p': "p = literal ''w6k=''" unfolding handle_form_e9 by simp
  from iff enc have d: "decode_contents (literal ''w6k='') = Inr [0xE9]"
    unfolding p' by blast
  from payload_round_trip [of "[0xFF]"] obtain q where
    q: "handle_form [0xFF] = Inr q"
    and err: "(\<nexists>text. utf8_encode text = Inr [0xFF]) \<longrightarrow>
                decode_contents q = Inl UnicodeDecodeError"
    by blast
  from q have q': "q = literal ''_w==''" unfolding handle_form_ff by simp
  from err none have e: "decode_contents (literal ''_w=='') = Inl UnicodeDecodeError"
    unfolding q' by blast
  from enc handle_form_e9 d none e show ?thesis by blast
qed

subsection \<open>C9: the value returned does not depend on the random delay\<close>

text \<open>
  C9. For every argument \<open>contents\<close>, two executions of \<^verbatim>\<open>my_task\<close> return equal values (or
  raise the same exception) whatever the random generator gives to each: the outcome
  depends on \<open>contents\<close> only.
\<close>

theorem my_task_deterministic:
  "returned (my_task contents g1) = returned (my_task contents g2)"
  by (rule my_task_returned_same)

subsection \<open>C10: an error of the base64 decoder is not caught\<close>

text \<open>
  C10. There are arguments that are not valid URL-safe base64, \<^verbatim>\<open>ab\<close> (padding missing) and
  \<^verbatim>\<open>a!\<close> (a character outside the alphabet), on which \<^verbatim>\<open>urlsafe_b64decode\<close> raises
  \<^verbatim>\<open>binascii.Error\<close>; \<^verbatim>\<open>my_task\<close> then raises that exception and does not return the string
  \<^verbatim>\<open>failed to decode.\<close>
\<close>

theorem base64_error_escapes:
  "decode_bytes (literal ''ab'') = Inl Binascii_Error
   \<and> returned (my_task (literal ''ab'') g) = Inl Binascii_Error
   \<and> decode_bytes (literal ''a!'') = Inl Binascii_Error
   \<and> returned (my_task (literal ''a!'') g) = Inl Binascii_Error
   \<and> returned (my_task (literal ''ab'') g) \<noteq> Inr (PyStr (literal ''failed to decode.''))"
  by (simp add: my_task_returned decode_contents_def decode_bytes_ab decode_bytes_a_bang)

subsection \<open>C8: the characters of the encoded payload\<close>

text \<open>
  C8 as stated, the string that \<^verbatim>\<open>handle_form\<close> returns contains only characters of the
  URL-safe base64 alphabet, fails on the file that holds the single byte \<^verbatim>\<open>0xFF\<close>: its
  payload \<^verbatim>\<open>_w==\<close> ends with two characters \<^verbatim>\<open>=\<close>, which are not among the 64 characters
  of that alphabet.
\<close>

theorem urlsafe_counterexample:
  "handle_form [0xFF] = Inr (literal ''_w=='')
   \<and> \<not> list_all urlsafe_char (literal ''_w=='')"
  using handle_form_ff by (simp add: literal_def urlsafe_char_def)

text \<open>
  C8, amended. For every byte sequence, the string that \<^verbatim>\<open>handle_form\<close> returns is made of
  characters of the URL-safe base64 alphabet (\<^verbatim>\<open>A-Z\<close>, \<^verbatim>\<open>a-z\<close>, \<^verbatim>\<open>0-9\<close>, \<^verbatim>\<open>-\<close>, \<^verbatim>\<open>_\<close>),
  followed by at most two padding characters \<^verbatim>\<open>=\<close>. All of them are printable ASCII
  characters: the string holds no control character, no space, no \<^verbatim>\<open>+\<close> and no \<^verbatim>\<open>/\<close>.
\<close>

theorem handle_form_urlsafe:
  "\<exists>body k. handle_form b = Inr (body @ replicate k 0x3D) \<and> k \<le> 2
      \<and> list_all urlsafe_char body
      \<and> list_all (\<lambda>c. 0x20 < c \<and> c < 0x7F \<and> c \<noteq> 0x2B \<and> c \<noteq> 0x2F)
           (body @ replicate k 0x3D)"
proof -
  obtain body k where
    shape: "map unat (urlsafe_b64encode b) = body @ replicate k 0x3D"
    and k: "k \<le> 2" and ok: "list_all urlsafe_char body"
    using urlsafe_b64encode_shape by blast
  have "list_all (\<lambda>c. 0x20 < c \<and> c < 0x7F \<and> c \<noteq> 0x2B \<and> c \<noteq> 0x2F) body"
    using ok by (auto simp: list_all_iff urlsafe_char_def)
  then have "list_all (\<lambda>c. 0x20 < c \<and> c < 0x7F \<and> c \<noteq> 0x2B \<and> c \<noteq> 0x2F)
               (body @ replicate k 0x3D)"
    by (auto simp: list_all_iff)
  with shape k ok show ?thesis
    by (auto simp: handle_form_payload)
qed

subsection \<open>C3: the statistics\<close>

text \<open>
  C3. For every argument whose decode step succeeds with the text \<open>text\<close>, \<^verbatim>\<open>my_task\<close>
  returns the mapping with \<^verbatim>\<open>lines\<close> the number of line feeds in \<open>text\<close> and \<^verbatim>\<open>characters\<close>
  the number of characters of \<open>text\<close>. So submitting the UTF-8 bytes of any text and
  executing the job gives the state \<^verbatim>\<open>SUCCESS\<close> with that mapping; in particular the
  file \<^verbatim>\<open>a\nb\nc\<close> gives 2 lines and 5 characters, and the empty file gives 0 and 0.
\<close>

theorem statistics_correct:
  "(decode_contents contents = Inr text \<longrightarrow>
      returned (my_task contents g) =
        Inr (Statistics (int (count_list text 10)) (int (length text))))
   \<and> (utf8_encode text = Inr b \<longrightarrow>
        results_after [Submit t b, Execute t g] t =
          Some (Render_results \<lparr>task_id = t, status = SUCCESS,
                  result = Statistics (int (count_list text 10)) (int (length text))\<rparr>))
   \<and> check_after [Submit t [0x61, 0x0A, 0x62, 0x0A, 0x63], Execute t g] t =
        Some (Inr \<lparr>json_task_id = t, json_status = SUCCESS, json_result = None\<rparr>)
   \<and> results_after [Submit t [0x61, 0x0A, 0x62, 0x0A, 0x63], Execute t g] t =
        Some (Render_results \<lparr>task_id = t, status = SUCCESS, result = Statistics 2 5\<rparr>)
   \<and> check_after [Submit t [], Execute t g] t =
        Some (Inr \<lparr>json_task_id = t, json_status = SUCCESS, json_result = None\<rparr>)
   \<and> results_after [Submit t [], Execute t g] t =
        Some (Render_results \<lparr>task_id = t, status = SUCCESS, result = Statistics 0 0\<rparr>)"
proof -
  have general: "decode_contents contents = Inr text \<longrightarrow>
      returned (my_task contents g) =
        Inr (Statistics (int (count_list text 10)) (int (length text)))"
    by (simp add: my_task_returned)
  have submitted: "results_after [Submit t b', Execute t g] t =
      Some (Render_results \<lparr>task_id = t, status = SUCCESS,
              result = Statistics (int (count_list text' 10)) (int (length text'))\<rparr>)
    \<and> check_after [Submit t b', Execute t g] t =
      Some (Inr \<lparr>json_task_id = t, json_status = SUCCESS, json_result = None\<rparr>)"
    if "utf8_decode b' = Inr text'" for b' text'
    using that
    unfolding results_after_def check_after_def run_submit_execute
    by (simp add: my_task_payload results_def check_def jsonify_def async_result_def
          successful_def settle_def)
  have abc: "utf8_decode [0x61, 0x0A, 0x62, 0x0A, 0x63] = Inr [0x61, 0x0A, 0x62, 0x0A, 0x63]"
    by (simp add: utf8_first_def push_char_def)
  have empty: "utf8_decode [] = Inr []"
    by simp
  show ?thesis
    using general submitted [OF abc] submitted [OF empty]
      submitted [OF utf8_decode_encode, of "text" b]
    by simp
qed

theorem statistics_correct_witness:
  "decode_contents (literal ''YQpiCmM='') = Inr [0x61, 0x0A, 0x62, 0x0A, 0x63]
   \<and> returned (my_task (literal ''YQpiCmM='') 3) = Inr (Statistics 2 5)
   \<and> utf8_encode [0xE9, 0x0A] = Inr [0xC3, 0xA9, 0x0A]
   \<and> results_after [Submit ''job'' [0xC3, 0xA9, 0x0A], Execute ''job'' 3] ''job'' =
        Some (Render_results \<lparr>task_id = ''job'', status = SUCCESS, result = Statistics 1 2\<rparr>)"
proof -
  have d: "decode_contents (literal ''YQpiCmM='') = Inr [0x61, 0x0A, 0x62, 0x0A, 0x63]"
    by (simp add: decode_contents_def decode_bytes_def codec_defs)
  have e: "utf8_encode [0xE9, 0x0A] = Inr [0xC3, 0xA9, 0x0A]"
    by (simp add: utf8_encode_char_def)
  from statistics_correct
    [of "literal ''YQpiCmM=''" "[0x61, 0x0A, 0x62, 0x0A, 0x63]" 3 "[0x61, 0x0A, 0x62, 0x0A, 0x63]"]
    d
  have r: "returned (my_task (literal ''YQpiCmM='') 3) = Inr (Statistics 2 5)"
    by simp
  from statistics_correct [of "[]" "[0xE9, 0x0A]" 3 "[0xC3, 0xA9, 0x0A]" "''job''"] e
  have s: "results_after [Submit ''job'' [0xC3, 0xA9, 0x0A], Execute ''job'' 3] ''job'' =
        Some (Render_results \<lparr>task_id = ''job'', status = SUCCESS, result = Statistics 1 2\<rparr>)"
    by simp
  from d r e s show ?thesis by blast
qed

subsection \<open>C5: the answer of the status query\<close>

text \<open>
  C5 says that for every job identifier \<^verbatim>\<open>check\<close> returns the identifier, the state and
  possibly a result, populated only in a terminal state and \<^verbatim>\<open>null\<close> in the state
  \<^verbatim>\<open>PENDING\<close>. The code does so for a job that is \<^verbatim>\<open>PENDING\<close> (result \<^verbatim>\<open>null\<close>) or in the state
  \<^verbatim>\<open>SUCCESS\<close> (no result key). For a job in the state \<^verbatim>\<open>FAILURE\<close> it passes the exception
  instance as the result to \<^verbatim>\<open>jsonify\<close>, which raises \<^verbatim>\<open>TypeError\<close>: \<^verbatim>\<open>check\<close> returns no
  answer. This is so after \<^verbatim>\<open>my_task.delay('ab')\<close> and the execution of that job.
\<close>

theorem check_answers:
  "check be t =
     (case be t of
        None \<Rightarrow> Inr \<lparr>json_task_id = t, json_status = PENDING, json_result = Some PyNone\<rparr>
      | Some (Done v) \<Rightarrow> Inr \<lparr>json_task_id = t, json_status = SUCCESS, json_result = None\<rparr>
      | Some (Failed e) \<Rightarrow> Inl TypeError)
   \<and> check [''job'' \<mapsto> Failed Binascii_Error] ''job'' = Inl TypeError
   \<and> check_after [Delay ''job'' (literal ''ab''), Execute ''job'' 0] ''job'' = Some (Inl TypeError)"
proof -
  have general: "check be' t' =
     (case be' t' of
        None \<Rightarrow> Inr \<lparr>json_task_id = t', json_status = PENDING, json_result = Some PyNone\<rparr>
      | Some (Done v) \<Rightarrow> Inr \<lparr>json_task_id = t', json_status = SUCCESS, json_result = None\<rparr>
      | Some (Failed e) \<Rightarrow> Inl TypeError)" for be' t'
    by (simp add: check_def Let_def jsonify_def async_result_def successful_def
          split: option.splits settlement.splits)
  have after: "check_after [Delay ''job'' (literal ''ab''), Execute ''job'' 0] ''job''
               = Some (Inl TypeError)"
    unfolding check_after_def run_delay_execute
    by (simp add: general my_task_returned decode_contents_def decode_bytes_ab settle_def)
  from general [of be t] general [of "[''job'' \<mapsto> Failed Binascii_Error]" "''job''"] after
  show ?thesis by simp
qed

subsection \<open>C4: fetching the result\<close>

text \<open>
  C4 as stated, the results route fails exactly when the state is not terminal, fails on
  a job in the terminal state \<^verbatim>\<open>FAILURE\<close>: after \<^verbatim>\<open>my_task.delay('ab')\<close> and its execution the
  state is \<^verbatim>\<open>FAILURE\<close>, and \<^verbatim>\<open>results\<close> answers that the task is not yet complete.
\<close>

theorem results_counterexample:
  "run [Delay ''job'' (literal ''ab''), Execute ''job'' 0] initial =
     Some \<lparr>broker = [''job'' \<mapsto> literal ''ab''],
           backend = [''job'' \<mapsto> Failed Binascii_Error]\<rparr>
   \<and> status (async_result [''job'' \<mapsto> Failed Binascii_Error] ''job'') = FAILURE
   \<and> results [''job'' \<mapsto> Failed Binascii_Error] ''job'' =
       Redirect_home (Not_yet_complete ''job'')"
  unfolding run_delay_execute
  by (simp add: my_task_returned decode_contents_def decode_bytes_ab results_def
        async_result_def successful_def settle_def)

text \<open>
  C4, amended. For every job identifier, the results route does not return the result if
  and only if the state of the job is not \<^verbatim>\<open>SUCCESS\<close>: in the states \<^verbatim>\<open>PENDING\<close> and
  \<^verbatim>\<open>FAILURE\<close> it flashes the warning that the task is not yet complete and redirects to the
  home page; in the state \<^verbatim>\<open>SUCCESS\<close> it renders the task with the value the job returned.
\<close>

theorem results_only_on_success:
  "((\<exists>f. results be t = Redirect_home f) \<longleftrightarrow> status (async_result be t) \<noteq> SUCCESS)
   \<and> (status (async_result be t) \<noteq> SUCCESS \<longrightarrow>
        results be t = Redirect_home (Not_yet_complete t))
   \<and> (status (async_result be t) = SUCCESS \<longrightarrow>
        (\<exists>v. be t = Some (Done v)
           \<and> results be t = Render_results \<lparr>task_id = t, status = SUCCESS, result = v\<rparr>))"
  by (auto simp: results_def Let_def async_result_def successful_def
        split: option.splits settlement.splits)

theorem results_only_on_success_witness:
  "status (async_result Map.empty ''job'') = PENDING
   \<and> results Map.empty ''job'' = Redirect_home (Not_yet_complete ''job'')
   \<and> status (async_result [''job'' \<mapsto> Done (Statistics 2 5)] ''job'') = SUCCESS
   \<and> results [''job'' \<mapsto> Done (Statistics 2 5)] ''job'' =
       Render_results \<lparr>task_id = ''job'', status = SUCCESS, result = Statistics 2 5\<rparr>"
proof -
  have p: "status (async_result Map.empty ''job'') = PENDING"
    by (simp add: async_result_def)
  have s: "status (async_result [''job'' \<mapsto> Done (Statistics 2 5)] ''job'') = SUCCESS"
    by (simp add: async_result_def)
  from results_only_on_success [of Map.empty "''job''"] p
  have r1: "results Map.empty ''job'' = Redirect_home (Not_yet_complete ''job'')"
    by simp
  from results_only_on_success [of "[''job'' \<mapsto> Done (Statistics 2 5)]" "''job''"] s
  have r2: "results [''job'' \<mapsto> Done (Statistics 2 5)] ''job'' =
       Render_results \<lparr>task_id = ''job'', status = SUCCESS, result = Statistics 2 5\<rparr>"
    by simp
  from p r1 s r2 show ?thesis by blast
qed

subsection \<open>C7: the simulated latency\<close>

text \<open>
  C7 as stated, every execution of \<^verbatim>\<open>my_task\<close> on the successful path and on the path of a
  decode failure sleeps between 5 and 10 seconds, fails on the argument \<^verbatim>\<open>ab\<close>: its decode
  step fails (\<^verbatim>\<open>binascii.Error\<close>) and the execution ends without any call of \<^verbatim>\<open>time.sleep\<close>.
\<close>

theorem sleep_counterexample:
  "decode_contents (literal ''ab'') = Inl Binascii_Error
   \<and> returned (my_task (literal ''ab'') 0) = Inl Binascii_Error
   \<and> slept (my_task (literal ''ab'') 0) = []"
  by (simp add: my_task_slept my_task_returned decode_contents_def decode_bytes_ab)

text \<open>
  C7, amended. Every execution of \<^verbatim>\<open>my_task\<close> that returns a value, on the path of a
  successful decode and on the path where \<^verbatim>\<open>UnicodeDecodeError\<close> is caught alike, sleeps
  exactly once, for a number of seconds drawn uniformly from the same fixed range, the
  integers from 5 to 10: the delay is \<^verbatim>\<open>random.randint(5, 10)\<close> on both paths, it lies
  between 5 and 10, and each of the six values comes from exactly one of the six equally
  likely numbers of the generator. Every execution on a payload built by \<^verbatim>\<open>handle_form\<close>
  is such an execution, so a job whose file fails to decode completes within the same
  bound as a successful one.
\<close>

theorem sleep_bounds:
  "(returned (my_task contents g) = Inr v \<longrightarrow> slept (my_task contents g) = [randint 5 10 g])
   \<and> 5 \<le> randint 5 10 g \<and> randint 5 10 g \<le> 10
   \<and> (5 \<le> d \<and> d \<le> 10 \<longrightarrow> card {g'. g' < 6 \<and> randint 5 10 g' = d} = 1)
   \<and> (\<exists>p v'. handle_form b = Inr p \<and> returned (my_task p g) = Inr v'
         \<and> slept (my_task p g) = [randint 5 10 g])"
proof -
  have a: "returned (my_task contents g) = Inr v \<longrightarrow>
      slept (my_task contents g) = [randint 5 10 g]"
    by (simp add: my_task_slept)
  have c: "5 \<le> d \<and> d \<le> 10 \<longrightarrow> card {g'. g' < 6 \<and> randint 5 10 g' = d} = 1"
  proof
    assume d: "5 \<le> d \<and> d \<le> 10"
    have "{g'. g' < 6 \<and> randint 5 10 g' = d} = {nat (d - 5)}"
      using d by (auto simp: randint_def)
    then show "card {g'. g' < 6 \<and> randint 5 10 g' = d} = 1"
      by simp
  qed
  obtain v' where v': "returned (my_task (map unat (urlsafe_b64encode b)) g) = Inr v'"
    by (cases "utf8_decode b") (simp_all add: my_task_payload)
  then have "slept (my_task (map unat (urlsafe_b64encode b)) g) = [randint 5 10 g]"
    by (simp add: my_task_slept)
  with v' have e: "\<exists>p v'. handle_form b = Inr p \<and> returned (my_task p g) = Inr v'
         \<and> slept (my_task p g) = [randint 5 10 g]"
    by (auto simp: handle_form_payload)
  from a c e randint_5_10 [of g] show ?thesis by blast
qed

theorem sleep_bounds_witness:
  "returned (my_task (literal ''_w=='') 8) = Inr (PyStr (literal ''failed to decode.''))
   \<and> slept (my_task (literal ''_w=='') 8) = [7]
   \<and> returned (my_task (literal ''YQpiCmM='') 8) = Inr (Statistics 2 5)
   \<and> slept (my_task (literal ''YQpiCmM='') 8) = [7]
   \<and> card {g'. g' < 6 \<and> randint 5 10 g' = 9} = 1"
proof -
  have r: "randint 5 10 8 = 7"
    by (simp add: randint_def)
  have f: "returned (my_task (literal ''_w=='') 8) = Inr (PyStr (literal ''failed to decode.''))"
    by (simp add: my_task_returned decode_contents_ff)
  have d: "decode_contents (literal ''YQpiCmM='') = Inr [0x61, 0x0A, 0x62, 0x0A, 0x63]"
    by (simp add: decode_contents_def decode_bytes_def codec_defs)
  have s: "returned (my_task (literal ''YQpiCmM='') 8) = Inr (Statistics 2 5)"
    by (simp add: my_task_returned d)
  from sleep_bounds [of "literal ''_w==''" 8 "PyStr (literal ''failed to decode.'')"] f r
  have f': "slept (my_task (literal ''_w=='') 8) = [7]"
    by simp
  from sleep_bounds [of "literal ''YQpiCmM=''" 8 "Statistics 2 5"] s r
  have s': "slept (my_task (literal ''YQpiCmM='') 8) = [7]"
    by simp
  from sleep_bounds [of _ _ _ 9]
  have g: "card {g'. g' < 6 \<and> randint 5 10 g' = 9} = 1"
    by simp
  from f f' s s' g show ?thesis by blast
qed

subsection \<open>C2: a payload that fails to decode\<close>

text \<open>
  C2 as stated, a payload whose decode step fails is settled in the state \<^verbatim>\<open>FAILURE\<close> and
  no decode error leaves \<^verbatim>\<open>my_task\<close>, fails twice. For the file that holds the byte
  \<^verbatim>\<open>0xFF\<close> the decode step fails and the job is settled in the state \<^verbatim>\<open>SUCCESS\<close>, with the
  message as the value returned. For the argument \<^verbatim>\<open>ab\<close> the decode error leaves \<^verbatim>\<open>my_task\<close>
  as an exception.
\<close>

theorem decode_failure_counterexample:
  "decode_contents (literal ''_w=='') = Inl UnicodeDecodeError
   \<and> check_after [Submit ''job'' [0xFF], Execute ''job'' 0] ''job'' =
       Some (Inr \<lparr>json_task_id = ''job'', json_status = SUCCESS, json_result = None\<rparr>)
   \<and> results_after [Submit ''job'' [0xFF], Execute ''job'' 0] ''job'' =
       Some (Render_results \<lparr>task_id = ''job'', status = SUCCESS,
               result = PyStr (literal ''failed to decode.'')\<rparr>)
   \<and> decode_contents (literal ''ab'') = Inl Binascii_Error
   \<and> returned (my_task (literal ''ab'') 0) = Inl Binascii_Error"
proof -
  have a: "check_after [Submit ''job'' [0xFF], Execute ''job'' 0] ''job'' =
       Some (Inr \<lparr>json_task_id = ''job'', json_status = SUCCESS, json_result = None\<rparr>)
   \<and> results_after [Submit ''job'' [0xFF], Execute ''job'' 0] ''job'' =
       Some (Render_results \<lparr>task_id = ''job'', status = SUCCESS,
               result = PyStr (literal ''failed to decode.'')\<rparr>)"
    unfolding check_after_def results_after_def run_submit_execute my_task_payload
      utf8_decode_ff
    by (simp add: check_def jsonify_def results_def async_result_def successful_def
          settle_def)
  have b: "decode_contents (literal ''ab'') = Inl Binascii_Error
   \<and> returned (my_task (literal ''ab'') 0) = Inl Binascii_Error"
    by (simp add: my_task_returned decode_contents_def decode_bytes_ab)
  from decode_contents_ff a b show ?thesis by blast
qed

text \<open>
  C2, amended. For every payload on which the base64 part of the decode step succeeds and
  the UTF-8 decoding of its bytes fails (the only failure a payload built by
  \<^verbatim>\<open>handle_form\<close> can have), \<^verbatim>\<open>my_task\<close> catches the error and returns the message
  \<^verbatim>\<open>failed to decode.\<close> as its value. The worker that executes the job stores the state
  \<^verbatim>\<open>SUCCESS\<close> with that message as the result, and the messages of the broker stay as they
  were, so the worker goes on with the next jobs.
\<close>

theorem utf8_failure_in_band:
  "decode_bytes contents = Inr b \<Longrightarrow> utf8_decode b = Inl e \<Longrightarrow>
     returned (my_task contents g) = Inr (PyStr (literal ''failed to decode.''))
     \<and> (broker s t = Some contents \<longrightarrow>
          (\<exists>s'. step (Execute t g) s = Some s' \<and> broker s' = broker s
             \<and> async_result (backend s') t =
                 \<lparr>task_id = t, status = SUCCESS,
                  result = PyStr (literal ''failed to decode.'')\<rparr>))"
proof -
  assume b: "decode_bytes contents = Inr b" and e: "utf8_decode b = Inl e"
  from e have "e = UnicodeDecodeError" by (rule utf8_decode_error)
  with b e have "decode_contents contents = Inl UnicodeDecodeError"
    by (simp add: decode_contents_def)
  then have r: "returned (my_task contents g) = Inr (PyStr (literal ''failed to decode.''))"
    by (simp add: my_task_returned)
  then show ?thesis
    by (simp add: async_result_def settle_def)
qed

theorem utf8_failure_in_band_witness:
  "decode_bytes (literal ''_w=='') = Inr [0xFF]
   \<and> utf8_decode [0xFF] = Inl UnicodeDecodeError
   \<and> returned (my_task (literal ''_w=='') 0) = Inr (PyStr (literal ''failed to decode.''))
   \<and> (\<exists>s'. step (Execute ''job'' 0)
               \<lparr>broker = [''job'' \<mapsto> literal ''_w==''], backend = Map.empty\<rparr> = Some s'
         \<and> async_result (backend s') ''job'' =
             \<lparr>task_id = ''job'', status = SUCCESS,
              result = PyStr (literal ''failed to decode.'')\<rparr>)"
proof -
  let ?s = "\<lparr>broker = [''job'' \<mapsto> literal ''_w==''], backend = Map.empty\<rparr>"
  have m: "broker ?s ''job'' = Some (literal ''_w=='')"
    by simp
  from utf8_failure_in_band [OF decode_bytes_ff utf8_decode_ff, of 0 ?s "''job''"] m
  have "returned (my_task (literal ''_w=='') 0) = Inr (PyStr (literal ''failed to decode.''))
     \<and> (\<exists>s'. step (Execute ''job'' 0) ?s = Some s'
          \<and> async_result (backend s') ''job'' =
              \<lparr>task_id = ''job'', status = SUCCESS,
               result = PyStr (literal ''failed to decode.'')\<rparr>)"
    by blast
  with decode_bytes_ff utf8_decode_ff show ?thesis by blast
qed

subsection \<open>C6: a terminal state stays\<close>

text \<open>
  C6 says that once the state of a job is \<^verbatim>\<open>SUCCESS\<close> or \<^verbatim>\<open>FAILURE\<close>, every later status
  query returns that state. The state itself stays in the backend
  (\<open>terminal_state_stays\<close>), and for a job in the state \<^verbatim>\<open>SUCCESS\<close> the query returns it.
  For a job in the state \<^verbatim>\<open>FAILURE\<close> the query returns no state: after
  \<^verbatim>\<open>my_task.delay('ab')\<close> and the execution of that job the state is \<^verbatim>\<open>FAILURE\<close>, it is
  still \<^verbatim>\<open>FAILURE\<close> after the job is executed once more, and \<^verbatim>\<open>check\<close> then raises
  \<^verbatim>\<open>TypeError\<close>.
\<close>

theorem status_query_after_failure:
  "run [Delay ''job'' (literal ''ab''), Execute ''job'' 0] initial =
     Some \<lparr>broker = [''job'' \<mapsto> literal ''ab''],
           backend = [''job'' \<mapsto> Failed Binascii_Error]\<rparr>
   \<and> status (async_result [''job'' \<mapsto> Failed Binascii_Error] ''job'') = FAILURE
   \<and> run [Execute ''job'' 4, Check_status ''job'']
        \<lparr>broker = [''job'' \<mapsto> literal ''ab''],
         backend = [''job'' \<mapsto> Failed Binascii_Error]\<rparr> =
     Some \<lparr>broker = [''job'' \<mapsto> literal ''ab''],
           backend = [''job'' \<mapsto> Failed Binascii_Error]\<rparr>
   \<and> check [''job'' \<mapsto> Failed Binascii_Error] ''job'' = Inl TypeError"
proof -
  have ab: "returned (my_task (literal ''ab'') g) = Inl Binascii_Error" for g
    by (simp add: my_task_returned decode_contents_def decode_bytes_ab)
  have r1: "run [Delay ''job'' (literal ''ab''), Execute ''job'' 0] initial =
     Some \<lparr>broker = [''job'' \<mapsto> literal ''ab''],
           backend = [''job'' \<mapsto> Failed Binascii_Error]\<rparr>"
    unfolding run_delay_execute by (simp add: ab settle_def)
  have r2: "run [Execute ''job'' 4, Check_status ''job'']
        \<lparr>broker = [''job'' \<mapsto> literal ''ab''],
         backend = [''job'' \<mapsto> Failed Binascii_Error]\<rparr> =
     Some \<lparr>broker = [''job'' \<mapsto> literal ''ab''],
           backend = [''job'' \<mapsto> Failed Binascii_Error]\<rparr>"
    by (simp add: ab settle_def)
  have f: "status (async_result [''job'' \<mapsto> Failed Binascii_Error] ''job'') = FAILURE"
    by (simp add: async_result_def)
  have c: "check [''job'' \<mapsto> Failed Binascii_Error] ''job'' = Inl TypeError"
    by (simp add: check_def Let_def jsonify_def async_result_def successful_def)
  from r1 f r2 c show ?thesis by blast
qed

end
